theory Spec2Isabelle
  imports Complex_Main "HOL-Library.Log_Nat" "HOL-Library.AList" "HOL-Library.Word"
begin

section \<open>Strings and number formatting\<close>

text \<open>
  Python \<open>str\<close> values are modelled as \<open>string\<close>; file names and colours of this
  program are ASCII. \<open>hex_digit\<close> and \<open>hex_digits\<close> give the lower-case digits that
  \<open>format(n, "02x")\<close> prints, \<open>dec_digits\<close> the decimal digits of an f-string
  \<open>{i+1}\<close>.
\<close>

definition hex_digit :: "nat \<Rightarrow> char" where
  "hex_digit d = ''0123456789abcdef'' ! (d mod 16)"

fun hex_digits :: "nat \<Rightarrow> string" where
  "hex_digits n = (if n < 16 then [hex_digit n] else hex_digits (n div 16) @ [hex_digit (n mod 16)])"

definition dec_digit :: "nat \<Rightarrow> char" where
  "dec_digit d = ''0123456789'' ! (d mod 10)"

fun dec_digits :: "nat \<Rightarrow> string" where
  "dec_digits n = (if n < 10 then [dec_digit n] else dec_digits (n div 10) @ [dec_digit (n mod 10)])"

text \<open>\<open>format(n, "02x")\<close>: sign, then the hex digits padded with zeros to width 2.\<close>

definition format_02x :: "int \<Rightarrow> string" where
  "format_02x n =
     (if n < 0 then CHR ''-'' # hex_digits (nat (- n))
      else let ds = hex_digits (nat n) in replicate (2 - length ds) CHR ''0'' @ ds)"

text \<open>\<open>sep.join(xs)\<close>.\<close>

fun join :: "string \<Rightarrow> string list \<Rightarrow> string" where
  "join sep [] = []"
| "join sep [x] = x"
| "join sep (x # y # ys) = x @ sep @ join sep (y # ys)"

section \<open>format_colors\<close>

text \<open>
  \<^verbatim>\<open>formatted = "\n".join([f"Color {i+1}: {color}" for i, color in enumerate(colors)])\<close>
  \<^verbatim>\<open>return f"Dominant colors extracted:\n{formatted}"\<close>
\<close>

definition color_line :: "nat \<Rightarrow> string \<Rightarrow> string" where
  "color_line i color = ''Color '' @ dec_digits (i + 1) @ '': '' @ color"

definition format_colors :: "string list \<Rightarrow> string" where
  "format_colors colors =
     (let formatted = join [CHR 0x0A] (map (\<lambda>(i, color). color_line i color) (enumerate 0 colors))
      in ''Dominant colors extracted:'' @ [CHR 0x0A] @ formatted)"

text \<open>
  The lines of a text: the pieces between line feeds, a final line feed ending the last
  line rather than opening an empty one (as \<open>str.splitlines\<close> reads a text).
\<close>

fun lines_of :: "string \<Rightarrow> string list" where
  "lines_of [] = []"
| "lines_of (c # cs) =
     (if c = CHR 0x0A then [] # lines_of cs
      else (case lines_of cs of [] \<Rightarrow> [[c]] | l # ls \<Rightarrow> (c # l) # ls))"

section \<open>Floating-point arithmetic\<close>

text \<open>
  A finite float is a rational number. \<open>py_round\<close> is Python's \<open>round(x)\<close> on a
  float: the nearest integer, a tie going to the even one. \<open>fl p\<close> rounds a rational to
  the nearest number with a \<open>p\<close>-bit significand, ties to even: \<open>fl 53\<close> is the rounding
  of every binary64 operation, \<open>fl 24\<close> that of binary32 (overflow and subnormal numbers,
  out of reach of the magnitudes of this program, are left out). \<open>ilog2 x\<close> is the
  exponent of the leading bit of a positive \<open>x\<close>.
\<close>

definition py_round :: "rat \<Rightarrow> int" where
  "py_round x =
     (let f = \<lfloor>x\<rfloor>; d = x - of_int f
      in if d < 1 / 2 then f else if 1 / 2 < d then f + 1 else if even f then f else f + 1)"

definition ilog2 :: "rat \<Rightarrow> int" where
  "ilog2 x =
     (let (a, b) = quotient_of x; d = bitlen a - bitlen b
      in if 2 powi d \<le> x then d else d - 1)"

definition fl :: "nat \<Rightarrow> rat \<Rightarrow> rat" where
  "fl p x =
     (if x = 0 then 0
      else let e = ilog2 \<bar>x\<bar> - (int p - 1)
           in sgn x * of_int (py_round (\<bar>x\<bar> / 2 powi e)) * 2 powi e)"

definition fdiv :: "rat \<Rightarrow> rat \<Rightarrow> rat" where
  "fdiv a b = fl 53 (a / b)"

definition fmul :: "rat \<Rightarrow> rat \<Rightarrow> rat" where
  "fmul a b = fl 53 (a * b)"

section \<open>Exceptions, the environment and the program state\<close>

text \<open>
  The handlers of \<open>extract_colors\<close> tell \<open>FileNotFoundError\<close> from every other
  \<open>Exception\<close>; both carry their message.
\<close>

datatype exn = FileNotFoundError string | Exception string

fun str_exn :: "exn \<Rightarrow> string" where
  "str_exn (FileNotFoundError m) = m"
| "str_exn (Exception m) = m"

type_synonym rgb = "rat \<times> rat \<times> rat"

type_synonym pixel = "8 word \<times> 8 word \<times> 8 word"

text \<open>
  What the program reads from outside itself, as the calls it makes:
  \<open>os.path.exists\<close>; \<open>Image.open(path)\<close>, which fails or gives an image whose
  \<open>convert("RGB")\<close> fails or gives the pixels; the cluster centres of
  \<open>KMeans(n_clusters=k).fit(pixels)\<close>; the matplotlib calls of
  \<open>display_color_palette\<close>, which fail or return; and \<open>os.walk(directory)\<close>, the
  \<open>(root, files)\<close> of every directory visited.
\<close>

record env =
  path_exists :: "string \<Rightarrow> bool"
  image_open :: "string \<Rightarrow> exn + (exn + pixel list)"
  kmeans :: "rgb list \<Rightarrow> int \<Rightarrow> exn + rgb list"
  plt_show :: "string list \<Rightarrow> exn option"
  walk :: "string \<Rightarrow> (string \<times> string list) list"

datatype level = DEBUG | INFO | ERROR

datatype log_msg =
    ReturningCached string
  | ImageLoaded string
  | PixelShape nat nat
  | DominantFound "rgb list"
  | DominantHex "string list"
  | DisplayingPalette "string list"
  | AnalyzingImage string
  | ErrorOf exn
  | ErrorExtracting string

text \<open>The module's global \<open>color_cache\<close> and the records handed to \<open>logging\<close>.\<close>

record state =
  color_cache :: "string \<rightharpoonup> string list"
  log :: "(level \<times> log_msg) list"

definition logging :: "level \<Rightarrow> log_msg \<Rightarrow> state \<Rightarrow> state" where
  "logging lvl m s = s\<lparr>log := log s @ [(lvl, m)]\<rparr>"

section \<open>rgb2hex\<close>

text \<open>
  \<open>matplotlib.colors.rgb2hex\<close> is the library's \<open>to_hex\<close>: \<open>to_rgba\<close> raises
  \<open>ValueError\<close> unless every channel is within 0-1, and the result is
  \<^verbatim>\<open>"#" + "".join(format(round(val * 255), "02x") for val in c)\<close>.
\<close>

definition rgb2hex :: "rgb \<Rightarrow> exn + string" where
  "rgb2hex c =
     (case c of (r, g, b) \<Rightarrow>
        if list_ex (\<lambda>v. v < 0 \<or> 1 < v) [r, g, b]
        then Inl (Exception ''RGBA values should be within 0-1 range'')
        else Inr (CHR ''#'' # concat (map (\<lambda>v. format_02x (py_round (fmul v 255))) [r, g, b])))"

text \<open>\<^verbatim>\<open>[rgb2hex(color) for color in dominant_colors]\<close>: the first failure ends it.\<close>

fun colors_hex :: "rgb list \<Rightarrow> exn + string list" where
  "colors_hex [] = Inr []"
| "colors_hex (c # cs) =
     (case rgb2hex c of
        Inl e \<Rightarrow> Inl e
      | Inr h \<Rightarrow> (case colors_hex cs of Inl e \<Rightarrow> Inl e | Inr hs \<Rightarrow> Inr (h # hs)))"

section \<open>extract_colors\<close>

text \<open>
  \<^verbatim>\<open>pixels = np.array(img.convert("RGB"), dtype=np.float32).reshape(-1, 3)\<close>
  \<^verbatim>\<open>pixels_normalized = pixels / 255.0\<close>, a binary32 division.
\<close>

definition normalize_pixels :: "pixel list \<Rightarrow> rgb list" where
  "normalize_pixels pixels =
     map (\<lambda>(r, g, b). (fl 24 (of_nat (unat r) / 255), fl 24 (of_nat (unat g) / 255),
                         fl 24 (of_nat (unat b) / 255))) pixels"

definition display_color_palette :: "env \<Rightarrow> string list \<Rightarrow> state \<Rightarrow> exn option \<times> state" where
  "display_color_palette E dominant_colors s =
     (plt_show E dominant_colors, logging DEBUG (DisplayingPalette dominant_colors) s)"

text \<open>The body of the \<open>try\<close>: \<open>Inl\<close> is the exception it raises.\<close>

definition extract_body :: "env \<Rightarrow> string \<Rightarrow> int \<Rightarrow> bool \<Rightarrow> state \<Rightarrow> (exn + string list) \<times> state" where
  "extract_body E image_path num_colors display_palette s =
     (if \<not> path_exists E image_path
      then (Inl (FileNotFoundError (''Image file '' @ [CHR 0x27] @ image_path @ [CHR 0x27] @ '' not found.'')), s)
      else case color_cache s image_path of
        Some cached \<Rightarrow> (Inr cached, logging INFO (ReturningCached image_path) s)
      | None \<Rightarrow>
          (case image_open E image_path of
             Inl e \<Rightarrow> (Inl e, s)
           | Inr img \<Rightarrow>
               let s1 = logging DEBUG (ImageLoaded image_path) s in
               (case img of
                  Inl e \<Rightarrow> (Inl e, s1)
                | Inr pixels \<Rightarrow>
                    let s2 = logging DEBUG (PixelShape (length pixels) 3) s1;
                        pixels_normalized = normalize_pixels pixels in
                    (case kmeans E pixels_normalized num_colors of
                       Inl e \<Rightarrow> (Inl e, s2)
                     | Inr dominant_colors \<Rightarrow>
                         let s3 = logging DEBUG (DominantFound dominant_colors) s2 in
                         (case colors_hex dominant_colors of
                            Inl e \<Rightarrow> (Inl e, s3)
                          | Inr dominant_colors_hex \<Rightarrow>
                              let s4 = logging DEBUG (DominantHex dominant_colors_hex) s3;
                                  s5 = s4\<lparr>color_cache := (color_cache s4)(image_path \<mapsto> dominant_colors_hex)\<rparr>
                              in if display_palette
                                 then (case display_color_palette E dominant_colors_hex s5 of
                                         (Some e, s6) \<Rightarrow> (Inl e, s6)
                                       | (None, s6) \<Rightarrow> (Inr dominant_colors_hex, s6))
                                 else (Inr dominant_colors_hex, s5))))))"

text \<open>
  The two handlers: \<open>except FileNotFoundError\<close> logs the exception, \<open>except Exception\<close>
  logs its text; both return the empty list.
\<close>

definition extract_colors :: "env \<Rightarrow> string \<Rightarrow> int \<Rightarrow> bool \<Rightarrow> state \<Rightarrow> (exn + string list) \<times> state" where
  "extract_colors E image_path num_colors display_palette s =
     (case extract_body E image_path num_colors display_palette s of
        (Inl (FileNotFoundError m), s') \<Rightarrow> (Inr [], logging ERROR (ErrorOf (FileNotFoundError m)) s')
      | (Inl (Exception m), s') \<Rightarrow>
          (Inr [], logging ERROR (ErrorExtracting (''Error while extracting colors: '' @ m)) s')
      | (Inr colors, s') \<Rightarrow> (Inr colors, s'))"

section \<open>analyze_directory\<close>

definition SUPPORTED_FORMATS :: "string list" where
  "SUPPORTED_FORMATS = [''.png'', ''.jpg'', ''.jpeg'', ''.bmp'', ''.tiff'']"

text \<open>\<open>str.lower\<close> and \<open>str.endswith\<close> (of a tuple of suffixes) on ASCII names.\<close>

definition lower_char :: "char \<Rightarrow> char" where
  "lower_char c = (let n = (of_char c :: nat) in if 65 \<le> n \<and> n \<le> 90 then char_of (n + 32) else c)"

definition lower :: "string \<Rightarrow> string" where
  "lower s = map lower_char s"

definition endswith :: "string \<Rightarrow> string \<Rightarrow> bool" where
  "endswith s suffix = (length suffix \<le> length s \<and> drop (length s - length suffix) s = suffix)"

definition endswith_any :: "string \<Rightarrow> string list \<Rightarrow> bool" where
  "endswith_any s suffixes = list_ex (endswith s) suffixes"

definition supported :: "string \<Rightarrow> bool" where
  "supported file = endswith_any (lower file) SUPPORTED_FORMATS"

text \<open>\<open>os.path.join(root, file)\<close> of \<open>posixpath\<close>.\<close>

definition path_join :: "string \<Rightarrow> string \<Rightarrow> string" where
  "path_join a b =
     (if take 1 b = ''/'' then b
      else if a = [] \<or> endswith a ''/'' then a @ b
      else a @ ''/'' @ b)"

text \<open>
  \<open>int(s, 16)\<close> on the slices of a colour: the value of a non-empty string of hex digits,
  \<open>ValueError\<close> otherwise (the sign, blanks and underscores that \<open>int\<close> also reads do
  not occur in a colour made by \<open>rgb2hex\<close>).
\<close>

definition hex_val :: "char \<Rightarrow> nat option" where
  "hex_val c =
     (let n = (of_char c :: nat)
      in if 48 \<le> n \<and> n \<le> 57 then Some (n - 48)
         else if 97 \<le> n \<and> n \<le> 102 then Some (n - 87)
         else if 65 \<le> n \<and> n \<le> 70 then Some (n - 55)
         else None)"

fun int16_acc :: "nat \<Rightarrow> string \<Rightarrow> nat option" where
  "int16_acc a [] = Some a"
| "int16_acc a (c # cs) = (case hex_val c of None \<Rightarrow> None | Some d \<Rightarrow> int16_acc (16 * a + d) cs)"

definition int16 :: "string \<Rightarrow> exn + nat" where
  "int16 s =
     (if s = [] then Inl (Exception ''invalid literal for int() with base 16'')
      else case int16_acc 0 s of
             None \<Rightarrow> Inl (Exception ''invalid literal for int() with base 16'')
           | Some n \<Rightarrow> Inr n)"

text \<open>\<^verbatim>\<open>np.array([int(color[1:3], 16), int(color[3:5], 16), int(color[5:7], 16)])\<close>\<close>

definition color_channels :: "string \<Rightarrow> exn + (nat \<times> nat \<times> nat)" where
  "color_channels color =
     (case int16 (take 2 (drop 1 color)) of
        Inl e \<Rightarrow> Inl e
      | Inr r \<Rightarrow>
          (case int16 (take 2 (drop 3 color)) of
             Inl e \<Rightarrow> Inl e
           | Inr g \<Rightarrow>
               (case int16 (take 2 (drop 5 color)) of
                  Inl e \<Rightarrow> Inl e
                | Inr b \<Rightarrow> Inr (r, g, b))))"

text \<open>
  \<open>aggregate_colors\<close> is a \<open>defaultdict\<close> of \<open>np.zeros(3)\<close>: a total function from the
  cluster index, zero where nothing was added. The binary64 sums of these integers are
  exact (they stay far below \<open>2^53\<close>), so they are kept as naturals.
  \<^verbatim>\<open>for i, color in enumerate(colors): aggregate_colors[i] += np.array([...])\<close>
\<close>

fun accumulate :: "nat \<Rightarrow> string list \<Rightarrow> (nat \<Rightarrow> nat \<times> nat \<times> nat) \<Rightarrow> exn + (nat \<Rightarrow> nat \<times> nat \<times> nat)" where
  "accumulate i [] agg = Inr agg"
| "accumulate i (color # colors) agg =
     (case color_channels color of
        Inl e \<Rightarrow> Inl e
      | Inr (r, g, b) \<Rightarrow>
          accumulate (i + 1) colors
            (agg(i := (case agg i of (r0, g0, b0) \<Rightarrow> (r0 + r, g0 + g, b0 + b)))))"

record acc =
  results :: "(string \<times> string list) list"
  aggregate_colors :: "nat \<Rightarrow> nat \<times> nat \<times> nat"
  image_count :: nat

text \<open>
  The inner loop \<open>for file in files\<close>. \<open>results\<close> is a \<open>dict\<close>: \<open>results[file] = colors\<close>
  replaces the value of a key already there and appends a new key otherwise.
\<close>

fun files_loop :: "env \<Rightarrow> int \<Rightarrow> bool \<Rightarrow> bool \<Rightarrow> string \<Rightarrow> string list \<Rightarrow> acc \<Rightarrow> state \<Rightarrow> (exn + acc) \<times> state" where
  "files_loop E num_colors display_palette aggregate root_dir [] a s = (Inr a, s)"
| "files_loop E num_colors display_palette aggregate root_dir (file # files) a s =
     (if supported file then
        let image_path = path_join root_dir file;
            s1 = logging INFO (AnalyzingImage image_path) s
        in (case extract_colors E image_path num_colors display_palette s1 of
              (Inl e, s2) \<Rightarrow> (Inl e, s2)
            | (Inr colors, s2) \<Rightarrow>
                if colors \<noteq> [] then
                  let a1 = a\<lparr>results := AList.update file colors (results a)\<rparr>
                  in if aggregate then
                       (case accumulate 0 colors (aggregate_colors a1) of
                          Inl e \<Rightarrow> (Inl e, s2)
                        | Inr agg \<Rightarrow>
                            files_loop E num_colors display_palette aggregate root_dir files
                              (a1\<lparr>aggregate_colors := agg, image_count := image_count a1 + 1\<rparr>) s2)
                     else files_loop E num_colors display_palette aggregate root_dir files a1 s2
                else files_loop E num_colors display_palette aggregate root_dir files a s2)
      else files_loop E num_colors display_palette aggregate root_dir files a s)"

text \<open>The outer loop \<open>for root, _, files in os.walk(directory)\<close>.\<close>

fun walk_loop :: "env \<Rightarrow> int \<Rightarrow> bool \<Rightarrow> bool \<Rightarrow> (string \<times> string list) list \<Rightarrow> acc \<Rightarrow> state \<Rightarrow> (exn + acc) \<times> state" where
  "walk_loop E num_colors display_palette aggregate [] a s = (Inr a, s)"
| "walk_loop E num_colors display_palette aggregate ((root_dir, files) # dirs) a s =
     (case files_loop E num_colors display_palette aggregate root_dir files a s of
        (Inl e, s') \<Rightarrow> (Inl e, s')
      | (Inr a', s') \<Rightarrow> walk_loop E num_colors display_palette aggregate dirs a' s')"

text \<open>\<^verbatim>\<open>aggregate_colors[i] / image_count / 255.0\<close>, two binary64 divisions per channel.\<close>

definition average :: "nat \<times> nat \<times> nat \<Rightarrow> nat \<Rightarrow> rgb" where
  "average v n =
     (case v of (r, g, b) \<Rightarrow>
        (fdiv (fdiv (of_nat r) (of_nat n)) 255, fdiv (fdiv (of_nat g) (of_nat n)) 255,
         fdiv (fdiv (of_nat b) (of_nat n)) 255))"

text \<open>The function returns the \<open>results\<close> dictionary or the aggregated list.\<close>

datatype result = Mapping "(string \<times> string list) list" | Palette "string list"

definition analyze_directory :: "env \<Rightarrow> string \<Rightarrow> int \<Rightarrow> bool \<Rightarrow> bool \<Rightarrow> state \<Rightarrow> (exn + result) \<times> state" where
  "analyze_directory E directory num_colors display_palette aggregate s =
     (case walk_loop E num_colors display_palette aggregate (walk E directory)
             \<lparr>results = [], aggregate_colors = (\<lambda>i. (0, 0, 0)), image_count = 0\<rparr> s of
        (Inl e, s') \<Rightarrow> (Inl e, s')
      | (Inr a, s') \<Rightarrow>
          if aggregate \<and> image_count a > 0 then
            (case colors_hex (map (\<lambda>i. average (aggregate_colors a i) (image_count a)) [0..<nat num_colors]) of
               Inl e \<Rightarrow> (Inl e, s')
             | Inr aggregated_result \<Rightarrow> (Inr (Palette aggregated_result), s'))
          else (Inr (Mapping (results a)), s'))"

text \<open>
  A sequence of later calls of \<open>extract_colors\<close>, each in its own environment: the state
  they leave behind.
\<close>

fun run_calls :: "(env \<times> string \<times> int \<times> bool) list \<Rightarrow> state \<Rightarrow> state" where
  "run_calls [] s = s"
| "run_calls ((E, p, k, d) # calls) s = run_calls calls (snd (extract_colors E p k d s))"

section \<open>The directory walk as one sequence of files\<close>

text \<open>
  The two nested loops of \<open>analyze_directory\<close> visit the files of \<open>os.walk\<close> one after
  the other: \<open>walk_files\<close> is that sequence, each file with its \<open>root\<close>, and
  \<open>pairs_loop\<close> is the loop body run along it. \<open>visit_file\<close> is what the body does
  with a supported file before it looks at the colours: the \<open>logging.info\<close> and the call
  of \<open>extract_colors\<close>. \<open>extractions\<close> lists the colour lists these calls return, in
  the order of the walk.
\<close>

definition walk_files :: "(string \<times> string list) list \<Rightarrow> (string \<times> string) list" where
  "walk_files dirs = concat (map (\<lambda>(r, fs). map (Pair r) fs) dirs)"

definition visit_file :: "env \<Rightarrow> int \<Rightarrow> bool \<Rightarrow> string \<Rightarrow> string \<Rightarrow> state \<Rightarrow> (exn + string list) \<times> state" where
  "visit_file E k d r f s =
     extract_colors E (path_join r f) k d (logging INFO (AnalyzingImage (path_join r f)) s)"

fun extractions :: "env \<Rightarrow> int \<Rightarrow> bool \<Rightarrow> (string \<times> string) list \<Rightarrow> state \<Rightarrow> string list list" where
  "extractions E k d [] s = []"
| "extractions E k d ((r, f) # rest) s =
     (if supported f then
        (case visit_file E k d r f s of
           (Inr colors, s') \<Rightarrow> colors # extractions E k d rest s'
         | (Inl e, s') \<Rightarrow> [])
      else extractions E k d rest s)"

fun pairs_loop :: "env \<Rightarrow> int \<Rightarrow> bool \<Rightarrow> bool \<Rightarrow> (string \<times> string) list \<Rightarrow> acc \<Rightarrow> state \<Rightarrow> (exn + acc) \<times> state" where
  "pairs_loop E k d ag [] a s = (Inr a, s)"
| "pairs_loop E k d ag ((r, f) # rest) a s =
     (case files_loop E k d ag r [f] a s of
        (Inl e, s') \<Rightarrow> (Inl e, s')
      | (Inr a', s') \<Rightarrow> pairs_loop E k d ag rest a' s')"

section \<open>Colours and their channel sums\<close>

text \<open>
  A colour as \<open>rgb2hex\<close> writes it: \<open>#\<close> and six hex digits. \<open>channels\<close> reads its
  three channels, as the slices \<open>color[1:3]\<close>, \<open>color[3:5]\<close>, \<open>color[5:7]\<close> of
  \<open>analyze_directory\<close> do. \<open>channel_sums ps i\<close> adds up, channel by channel, the colours
  at index \<open>i\<close> of the palettes \<open>ps\<close>.
\<close>

definition hex_color :: "string \<Rightarrow> bool" where
  "hex_color c = (length c = 7 \<and> take 1 c = ''#'' \<and> list_all (\<lambda>x. hex_val x \<noteq> None) (drop 1 c))"

definition channels :: "string \<Rightarrow> nat \<times> nat \<times> nat" where
  "channels c = (case color_channels c of Inr v \<Rightarrow> v | Inl e \<Rightarrow> (0, 0, 0))"

fun add3 :: "nat \<times> nat \<times> nat \<Rightarrow> nat \<times> nat \<times> nat \<Rightarrow> nat \<times> nat \<times> nat" where
  "add3 (r0, g0, b0) (r, g, b) = (r0 + r, g0 + g, b0 + b)"

fun channel_sums :: "string list list \<Rightarrow> nat \<Rightarrow> nat \<times> nat \<times> nat" where
  "channel_sums [] i = (0, 0, 0)"
| "channel_sums (p # ps) i = add3 (channels (p ! i)) (channel_sums ps i)"

text \<open>
  The cache holds only colours. The cache of the module starts empty and only
  \<open>extract_colors\<close> writes to it, the output of \<open>rgb2hex\<close>, so every cache the program
  builds is such a cache.
\<close>

definition cache_ok :: "state \<Rightarrow> bool" where
  "cache_ok s = (\<forall>p cs. color_cache s p = Some cs \<longrightarrow> (\<forall>c\<in>set cs. hex_color c))"

section \<open>A concrete environment\<close>

text \<open>
  Two directories of small images. \<open>pair\<close> holds a red and a blue one-pixel image.
  \<open>imgs\<close> holds a red image and a text file, and a subdirectory with a blue image and a
  two-pixel red-and-blue image that is also called \<open>a.png\<close>. The clustering of this
  environment fails when there are fewer pixels than clusters, returns the mean colour
  for one cluster and the pixels themselves otherwise (the centres KMeans converges to
  on images like these). The palette window fails on a single colour
  (\<open>plt.subplots(1, 1)\<close> gives one Axes, which \<open>ax[i]\<close> cannot index) and shows otherwise.
\<close>

definition red_px :: pixel where
  "red_px = (255, 0, 0)"

definition blue_px :: pixel where
  "blue_px = (0, 0, 255)"

definition demo_images :: "(string \<times> pixel list) list" where
  "demo_images =
     [(''pair/red.png'', [red_px]),
      (''pair/blue.png'', [blue_px]),
      (''imgs/a.png'', [red_px]),
      (''imgs/sub/b.PNG'', [blue_px]),
      (''imgs/sub/a.png'', [red_px, blue_px])]"

definition mean_rgb :: "rgb list \<Rightarrow> rgb" where
  "mean_rgb pixels =
     (let n = of_nat (length pixels)
      in (sum_list (map fst pixels) / n,
          sum_list (map (fst \<circ> snd) pixels) / n,
          sum_list (map (snd \<circ> snd) pixels) / n))"

definition demo_kmeans :: "rgb list \<Rightarrow> int \<Rightarrow> exn + rgb list" where
  "demo_kmeans pixels k =
     (if k \<le> 0 \<or> length pixels < nat k then Inl (Exception ''n_samples should be >= n_clusters'')
      else if k = 1 then Inr [mean_rgb pixels]
      else Inr (take (nat k) pixels))"

definition demo_show :: "string list \<Rightarrow> exn option" where
  "demo_show colors =
     (if length colors = 1 then Some (Exception ''Axes object is not subscriptable'') else None)"

definition demo_walk :: "string \<Rightarrow> (string \<times> string list) list" where
  "demo_walk d =
     (if d = ''pair'' then [(''pair'', [''red.png'', ''blue.png''])]
      else if d = ''imgs''
      then [(''imgs'', [''a.png'', ''notes.txt'']), (''imgs/sub'', [''b.PNG'', ''a.png''])]
      else [])"

definition demo_env :: env where
  "demo_env =
     \<lparr>path_exists = (\<lambda>p. p \<in> set (''imgs/notes.txt'' # map fst demo_images)),
      image_open = (\<lambda>p. case map_of demo_images p of
                          Some px \<Rightarrow> Inr (Inr px)
                        | None \<Rightarrow> Inl (Exception ''cannot identify image file'')),
      kmeans = demo_kmeans,
      plt_show = demo_show,
      walk = demo_walk\<rparr>"

text \<open>The same environment after every file has been removed from the disk.\<close>

definition removed_env :: env where
  "removed_env = demo_env\<lparr>path_exists := (\<lambda>p. False), walk := (\<lambda>d. [])\<rparr>"

definition s0 :: state where
  "s0 = \<lparr>color_cache = Map.empty, log = []\<rparr>"

section \<open>The report of format_colors\<close>

declare dec_digits.simps [simp del] hex_digits.simps [simp del]

lemma lines_of_no_lf: "CHR 0x0A \<notin> set l \<Longrightarrow> l \<noteq> [] \<Longrightarrow> lines_of l = [l]"
proof (induction l)
  case Nil then show ?case by simp
next
  case (Cons c cs)
  show ?case
  proof (cases cs)
    case Nil with Cons.prems show ?thesis by auto
  next
    case (Cons d ds)
    with Cons.prems Cons.IH show ?thesis by auto
  qed
qed

lemma lines_of_cons_line:
  "CHR 0x0A \<notin> set l \<Longrightarrow> lines_of (l @ CHR 0x0A # rest) = l # lines_of rest"
  by (induction l) auto

lemma lines_of_join:
  "\<forall>l\<in>set ls. CHR 0x0A \<notin> set l \<and> l \<noteq> [] \<Longrightarrow> lines_of (join [CHR 0x0A] ls) = ls"
proof (induction ls rule: induct_list012)
  case 1 then show ?case by simp
next
  case (2 x) then show ?case by (simp add: lines_of_no_lf)
next
  case (3 x y ys)
  then have "lines_of (join [CHR 0x0A] (y # ys)) = y # ys" by simp
  moreover have "CHR 0x0A \<notin> set x" using 3 by simp
  ultimately show ?case using lines_of_cons_line[of x "join [CHR 0x0A] (y # ys)"] by simp
qed

lemma dec_digit_not_lf: "dec_digit d \<noteq> CHR 0x0A"
proof -
  have "\<forall>k<10. ''0123456789'' ! k \<noteq> CHR 0x0A"
    by (simp add: numeral_eq_Suc All_less_Suc)
  moreover have "d mod 10 < 10" by simp
  ultimately show ?thesis unfolding dec_digit_def by blast
qed

lemma dec_digits_no_lf: "CHR 0x0A \<notin> set (dec_digits n)"
proof (induction n rule: dec_digits.induct)
  case (1 n)
  show ?case
  proof (cases "n < 10")
    case True
    then have "dec_digits n = [dec_digit n]" by (subst dec_digits.simps) simp
    then show ?thesis using dec_digit_not_lf[of n] by auto
  next
    case False
    then have "dec_digits n = dec_digits (n div 10) @ [dec_digit (n mod 10)]"
      by (subst dec_digits.simps) simp
    with 1 False show ?thesis using dec_digit_not_lf[of "n mod 10"] by auto
  qed
qed

lemma color_line_no_lf: "CHR 0x0A \<notin> set c \<Longrightarrow> CHR 0x0A \<notin> set (color_line i c) \<and> color_line i c \<noteq> []"
  using dec_digits_no_lf[of "i + 1"] by (simp add: color_line_def)

lemma enumerate_lines:
  "map (\<lambda>(i, color). color_line i color) (enumerate 0 colors) = map (\<lambda>i. color_line i (colors ! i)) [0..<length colors]"
  by (rule nth_equalityI) (simp_all add: enumerate_eq_zip)

text \<open>
  Claim C8. For every list of colours without line breaks, the report of
  \<open>format_colors\<close> is the fixed header line \<open>Dominant colors extracted:\<close> followed by
  one line per colour, the line of the colour at index \<open>i\<close> being
  \<open>Color\<close> \<open>i + 1\<close>\<open>:\<close> and the colour; for \<open>#112233\<close> and \<open>#445566\<close> the lines
  are \<open>Color 1: #112233\<close> and \<open>Color 2: #445566\<close>.
\<close>

theorem format_colors_lines:
  assumes "\<forall>c\<in>set colors. CHR 0x0A \<notin> set c"
  shows "lines_of (format_colors colors) =
           ''Dominant colors extracted:'' #
           map (\<lambda>i. ''Color '' @ dec_digits (i + 1) @ '': '' @ colors ! i) [0..<length colors]"
proof -
  let ?ls = "map (\<lambda>i. color_line i (colors ! i)) [0..<length colors]"
  have ok: "\<forall>l\<in>set ?ls. CHR 0x0A \<notin> set l \<and> l \<noteq> []"
    using assms color_line_no_lf by auto
  have "format_colors colors = ''Dominant colors extracted:'' @ CHR 0x0A # join [CHR 0x0A] ?ls"
    by (simp add: format_colors_def enumerate_lines)
  moreover have "lines_of (''Dominant colors extracted:'' @ CHR 0x0A # join [CHR 0x0A] ?ls)
                 = ''Dominant colors extracted:'' # lines_of (join [CHR 0x0A] ?ls)"
    by (rule lines_of_cons_line) simp
  ultimately show ?thesis using lines_of_join[OF ok] by (simp add: color_line_def)
qed

theorem format_colors_lines_witness:
  "lines_of (format_colors [''#112233'', ''#445566'']) =
     [''Dominant colors extracted:'', ''Color 1: #112233'', ''Color 2: #445566'']"
  using format_colors_lines[of "[''#112233'', ''#445566'']"]
  by (simp add: dec_digit_def upt_rec dec_digits.simps[of "Suc 0"] dec_digits.simps[of "Suc (Suc 0)"])

section \<open>Facts about extract_colors\<close>

lemmas extract_defs = extract_colors_def extract_body_def display_color_palette_def logging_def Let_def

lemma colors_hex_length: "colors_hex cs = Inr hs \<Longrightarrow> length hs = length cs"
  by (induction cs arbitrary: hs) (auto split: sum.splits)

lemma extract_colors_returns: "\<exists>cs. fst (extract_colors E p k d s) = Inr cs"
  by (auto simp: extract_defs split: option.splits sum.splits exn.splits prod.splits)

lemma extract_colors_hit:
  assumes "path_exists E p" "color_cache s p = Some cs"
  shows "extract_colors E p k d s = (Inr cs, logging INFO (ReturningCached p) s)"
  using assms by (simp add: extract_colors_def extract_body_def)

lemma extract_colors_miss_ok:
  assumes "path_exists E p" "color_cache s p = None" "image_open E p = Inr (Inr px)"
    "kmeans E (normalize_pixels px) k = Inr cents" "colors_hex cents = Inr hs"
    "d \<longrightarrow> plt_show E hs = None"
  shows "extract_colors E p k d s =
           (Inr hs, s\<lparr>color_cache := (color_cache s)(p \<mapsto> hs),
                       log := log s @ [(DEBUG, ImageLoaded p), (DEBUG, PixelShape (length px) 3),
                                       (DEBUG, DominantFound cents), (DEBUG, DominantHex hs)]
                                     @ (if d then [(DEBUG, DisplayingPalette hs)] else [])\<rparr>)"
  using assms by (simp add: extract_defs)

lemma extract_colors_cache_kept:
  assumes "color_cache s p = Some cs"
  shows "color_cache (snd (extract_colors E q k d s)) p = Some cs"
  using assms
  by (auto simp: extract_defs split: option.splits sum.splits exn.splits prod.splits)

lemma run_calls_cache_kept:
  "color_cache s p = Some cs \<Longrightarrow> color_cache (run_calls calls s) p = Some cs"
proof (induction calls arbitrary: s)
  case Nil then show ?case by simp
next
  case (Cons c calls)
  obtain E q k d where c: "c = (E, q, k, d)" by (cases c) auto
  show ?case unfolding c using Cons.IH[OF extract_colors_cache_kept[OF Cons.prems]] by simp
qed

lemma extract_colors_nonempty_cached:
  assumes "fst (extract_colors E p k d s) = Inr cs" "cs \<noteq> []"
  shows "color_cache (snd (extract_colors E p k d s)) p = Some cs"
  using assms
  by (auto simp: extract_defs split: option.splits sum.splits exn.splits prod.splits if_splits)

lemma extract_colors_not_found:
  assumes "\<not> path_exists E p"
  shows "extract_colors E p k d s =
           (Inr [], s\<lparr>log := log s @ [(ERROR, ErrorOf (FileNotFoundError
                         (''Image file '' @ [CHR 0x27] @ p @ [CHR 0x27] @ '' not found.'')))]\<rparr>)"
  using assms by (simp add: extract_defs)

subsection \<open>The calls of the concrete environment\<close>

lemma norm_red: "normalize_pixels [red_px] = [(1, 0, 0)]" by code_simp
lemma norm_blue: "normalize_pixels [blue_px] = [(0, 0, 1)]" by code_simp
lemma norm_red_blue: "normalize_pixels [red_px, blue_px] = [(1, 0, 0), (0, 0, 1)]" by code_simp
lemma hex_red: "rgb2hex (1, 0, 0) = Inr ''#ff0000''" by code_simp
lemma hex_blue: "rgb2hex (0, 0, 1) = Inr ''#0000ff''" by code_simp
lemma hex_purple: "rgb2hex (1 / 2, 0, 1 / 2) = Inr ''#800080''" by code_simp
lemma kmeans_red: "demo_kmeans [(1, 0, 0)] 1 = Inr [(1, 0, 0)]" by (simp add: demo_kmeans_def mean_rgb_def)
lemma kmeans_blue: "demo_kmeans [(0, 0, 1)] 1 = Inr [(0, 0, 1)]" by (simp add: demo_kmeans_def mean_rgb_def)
lemma kmeans_rb1: "demo_kmeans [(1, 0, 0), (0, 0, 1)] 1 = Inr [(1 / 2, 0, 1 / 2)]" by (simp add: demo_kmeans_def mean_rgb_def)
lemma kmeans_rb2: "demo_kmeans [(1, 0, 0), (0, 0, 1)] 2 = Inr [(1, 0, 0), (0, 0, 1)]" by (simp add: demo_kmeans_def)

lemma demo_exists:
  "path_exists demo_env ''imgs/a.png''" "path_exists demo_env ''imgs/sub/a.png''"
  "path_exists demo_env ''imgs/sub/b.PNG''" "path_exists demo_env ''pair/red.png''"
  "path_exists demo_env ''pair/blue.png''" "\<not> path_exists demo_env ''imgs/missing.png''"
  by (simp_all add: demo_env_def demo_images_def)

lemma demo_open:
  "image_open demo_env ''imgs/a.png'' = Inr (Inr [red_px])"
  "image_open demo_env ''imgs/sub/a.png'' = Inr (Inr [red_px, blue_px])"
  "image_open demo_env ''imgs/sub/b.PNG'' = Inr (Inr [blue_px])"
  "image_open demo_env ''pair/red.png'' = Inr (Inr [red_px])"
  "image_open demo_env ''pair/blue.png'' = Inr (Inr [blue_px])"
  by (simp_all add: demo_env_def demo_images_def)

lemma demo_fields: "kmeans demo_env = demo_kmeans" "plt_show demo_env = demo_show" "walk demo_env = demo_walk"
  by (simp_all add: demo_env_def)

lemmas demo_facts = norm_red norm_blue norm_red_blue hex_red hex_blue hex_purple kmeans_red kmeans_blue
  kmeans_rb1 kmeans_rb2 demo_exists demo_open demo_fields

lemma first_call: "extract_colors demo_env ''imgs/a.png'' 1 False s0 =
   (Inr [''#ff0000''], s0\<lparr>color_cache := (color_cache s0)(''imgs/a.png'' \<mapsto> [''#ff0000'']),
      log := log s0 @ [(DEBUG, ImageLoaded ''imgs/a.png''), (DEBUG, PixelShape 1 3),
         (DEBUG, DominantFound [(1, 0, 0)]), (DEBUG, DominantHex [''#ff0000''])]\<rparr>)"
  using extract_colors_miss_ok[of demo_env "''imgs/a.png''" s0 "[red_px]" 1 "[(1,0,0)]" "[''#ff0000'']" False]
  by (simp add: demo_facts s0_def)

lemma extract_colors_show_fails:
  assumes "path_exists E p" "color_cache s p = None" "image_open E p = Inr (Inr px)"
    "kmeans E (normalize_pixels px) k = Inr cents" "colors_hex cents = Inr hs"
    "plt_show E hs = Some (Exception m)"
  shows "extract_colors E p k True s =
           (Inr [], s\<lparr>color_cache := (color_cache s)(p \<mapsto> hs),
                       log := log s @ [(DEBUG, ImageLoaded p), (DEBUG, PixelShape (length px) 3),
                                       (DEBUG, DominantFound cents), (DEBUG, DominantHex hs),
                                       (DEBUG, DisplayingPalette hs),
                                       (ERROR, ErrorExtracting (''Error while extracting colors: '' @ m))]\<rparr>)"
  using assms by (simp add: extract_defs)

lemma shown_call:
  "extract_colors demo_env ''imgs/a.png'' 1 True s0 =
     (Inr [], s0\<lparr>color_cache := (color_cache s0)(''imgs/a.png'' \<mapsto> [''#ff0000'']),
         log := log s0 @ [(DEBUG, ImageLoaded ''imgs/a.png''), (DEBUG, PixelShape 1 3),
            (DEBUG, DominantFound [(1, 0, 0)]), (DEBUG, DominantHex [''#ff0000'']),
            (DEBUG, DisplayingPalette [''#ff0000'']),
            (ERROR, ErrorExtracting (''Error while extracting colors: '' @ ''Axes object is not subscriptable''))]\<rparr>)"
  using extract_colors_show_fails[of demo_env "''imgs/a.png''" s0 "[red_px]" 1 "[(1,0,0)]" "[''#ff0000'']"
          "''Axes object is not subscriptable''"]
  by (simp add: demo_facts s0_def demo_show_def)

lemma two_color_call:
  "extract_colors demo_env ''imgs/sub/a.png'' 2 False s0 =
     (Inr [''#ff0000'', ''#0000ff''],
      s0\<lparr>color_cache := (color_cache s0)(''imgs/sub/a.png'' \<mapsto> [''#ff0000'', ''#0000ff'']),
         log := log s0 @ [(DEBUG, ImageLoaded ''imgs/sub/a.png''), (DEBUG, PixelShape 2 3),
            (DEBUG, DominantFound [(1, 0, 0), (0, 0, 1)]), (DEBUG, DominantHex [''#ff0000'', ''#0000ff''])]\<rparr>)"
  using extract_colors_miss_ok[of demo_env "''imgs/sub/a.png''" s0 "[red_px, blue_px]" 2
          "[(1,0,0), (0,0,1)]" "[''#ff0000'', ''#0000ff'']" False]
  by (simp add: demo_facts s0_def)

section \<open>The claims about extract_colors\<close>

text \<open>
  Claim C4. For every path that does not exist, \<open>extract_colors\<close> returns the empty list
  without raising (the result is \<open>Inr []\<close>), leaves the cache alone and appends exactly
  one record to the log, of level \<open>ERROR\<close>: the \<open>FileNotFoundError\<close> it caught.
\<close>

theorem extract_colors_missing:
  assumes "\<not> path_exists E p"
  shows "extract_colors E p k d s =
           (Inr [], s\<lparr>log := log s @ [(ERROR, ErrorOf (FileNotFoundError
                         (''Image file '' @ [CHR 0x27] @ p @ [CHR 0x27] @ '' not found.'')))]\<rparr>)"
  using assms by (rule extract_colors_not_found)

theorem extract_colors_missing_witness:
  "extract_colors demo_env ''imgs/missing.png'' 5 False s0 =
     (Inr [], s0\<lparr>log := log s0 @ [(ERROR, ErrorOf (FileNotFoundError
         (''Image file '' @ [CHR 0x27] @ ''imgs/missing.png'' @ [CHR 0x27] @ '' not found.'')))]\<rparr>)"
  using extract_colors_missing[of demo_env "''imgs/missing.png''" 5 False s0]
  by (simp add: demo_env_def demo_images_def)

text \<open>
  Claim C1, as the code has it. After a call of \<open>extract_colors\<close> has returned a
  non-empty list, a second call with the same path returns the same list whenever the
  path still exists at that moment, whatever the file now holds and whatever \<open>k\<close> and
  \<open>show\<close> are: neither the image nor the clustering is consulted again.
\<close>

theorem cache_hit_same_list:
  assumes "fst (extract_colors E p k d s) = Inr cs" "cs \<noteq> []" "path_exists E' p"
  shows "fst (extract_colors E' p k' d' (snd (extract_colors E p k d s))) = Inr cs"
  using extract_colors_hit[OF assms(3) extract_colors_nonempty_cached[OF assms(1,2)]] by simp

theorem cache_hit_same_list_witness:
  "fst (extract_colors demo_env ''imgs/a.png'' 3 True
          (snd (extract_colors demo_env ''imgs/a.png'' 1 False s0))) = Inr [''#ff0000'']"
  using cache_hit_same_list[of demo_env "''imgs/a.png''" 1 False s0 "[''#ff0000'']" demo_env 3 True]
  by (simp add: first_call demo_facts)

text \<open>
  The existence check of line 27 comes before the cache lookup of line 31: once the file
  is removed, the second call returns the empty list, not the cached one.
\<close>

theorem removed_file_counterexample:
  "fst (extract_colors demo_env ''imgs/a.png'' 1 False s0) = Inr [''#ff0000''] \<and>
   fst (extract_colors removed_env ''imgs/a.png'' 1 False
          (snd (extract_colors demo_env ''imgs/a.png'' 1 False s0))) = Inr [] \<and>
   fst (extract_colors removed_env ''imgs/a.png'' 1 False
          (snd (extract_colors demo_env ''imgs/a.png'' 1 False s0)))
     \<noteq> fst (extract_colors demo_env ''imgs/a.png'' 1 False s0)"
  by (simp add: first_call extract_colors_not_found removed_env_def)

text \<open>
  Claim C3, as the code has it. The palette is displayed inside the \<open>try\<close>, so a failure
  of the renderer is caught by the handlers of \<open>extract_colors\<close>: the call returns the
  empty list without raising, and the last record of the log is the \<open>ERROR\<close> of the
  handler, after the records of the extraction and of the display.
\<close>

theorem render_failure_caught:
  assumes "path_exists E p" "color_cache s p = None" "image_open E p = Inr (Inr px)"
    "kmeans E (normalize_pixels px) k = Inr cents" "colors_hex cents = Inr hs"
    "plt_show E hs = Some e"
  shows "fst (extract_colors E p k True s) = Inr [] \<and>
         (\<exists>m. log (snd (extract_colors E p k True s)) =
                 log s @ [(DEBUG, ImageLoaded p), (DEBUG, PixelShape (length px) 3),
                          (DEBUG, DominantFound cents), (DEBUG, DominantHex hs),
                          (DEBUG, DisplayingPalette hs), (ERROR, m)])"
  using assms by (cases e) (simp_all add: extract_defs)

theorem render_failure_caught_witness:
  "fst (extract_colors demo_env ''imgs/a.png'' 1 True s0) = Inr [] \<and>
   (\<exists>m. log (snd (extract_colors demo_env ''imgs/a.png'' 1 True s0)) =
           log s0 @ [(DEBUG, ImageLoaded ''imgs/a.png''), (DEBUG, PixelShape (length [red_px]) 3),
                     (DEBUG, DominantFound [(1, 0, 0)]), (DEBUG, DominantHex [''#ff0000'']),
                     (DEBUG, DisplayingPalette [''#ff0000'']), (ERROR, m)])"
  using render_failure_caught[of demo_env "''imgs/a.png''" s0 "[red_px]" 1 "[(1,0,0)]" "[''#ff0000'']"
          "Exception ''Axes object is not subscriptable''"]
  by (simp add: demo_facts s0_def demo_show_def)

text \<open>
  In the concrete environment the renderer fails on the one-colour palette of
  \<open>imgs/a.png\<close>, and the call returns \<open>[]\<close> instead of raising that failure.
\<close>

theorem render_failure_counterexample:
  "plt_show demo_env [''#ff0000''] = Some (Exception ''Axes object is not subscriptable'') \<and>
   fst (extract_colors demo_env ''imgs/a.png'' 1 True s0) \<noteq> Inl (Exception ''Axes object is not subscriptable'') \<and>
   fst (extract_colors demo_env ''imgs/a.png'' 1 True s0) = Inr []"
  by (simp add: shown_call demo_facts demo_show_def)

text \<open>
  Claim C9, as the code has it. The cache is written before the palette is displayed:
  when the clustering has given at least one centre and the display fails, the call
  returns the empty list while the cache already holds the non-empty colour list of the
  path, and every later call with that path made while the path still exists returns
  that non-empty cached list, whatever calls came in between.
\<close>

theorem render_failure_leaves_cache:
  assumes "path_exists E p" "color_cache s p = None" "image_open E p = Inr (Inr px)"
    "kmeans E (normalize_pixels px) k = Inr cents" "cents \<noteq> []" "colors_hex cents = Inr hs"
    "plt_show E hs = Some e" "path_exists E' p"
  shows "fst (extract_colors E p k True s) = Inr [] \<and>
         hs \<noteq> [] \<and>
         color_cache (snd (extract_colors E p k True s)) p = Some hs \<and>
         fst (extract_colors E' p k' d' (run_calls calls (snd (extract_colors E p k True s)))) = Inr hs"
proof -
  have r: "fst (extract_colors E p k True s) = Inr []"
    and c: "color_cache (snd (extract_colors E p k True s)) p = Some hs"
    using assms(1-4,6,7) by (cases e; simp add: extract_defs)+
  have n: "hs \<noteq> []" using colors_hex_length[OF assms(6)] assms(5) by auto
  from run_calls_cache_kept[OF c] have "color_cache (run_calls calls (snd (extract_colors E p k True s))) p = Some hs" .
  from extract_colors_hit[OF assms(8) this] r c n show ?thesis by simp
qed

theorem render_failure_leaves_cache_witness:
  "fst (extract_colors demo_env ''imgs/a.png'' 1 True s0) = Inr [] \<and>
   [''#ff0000''] \<noteq> ([] :: string list) \<and>
   color_cache (snd (extract_colors demo_env ''imgs/a.png'' 1 True s0)) ''imgs/a.png'' = Some [''#ff0000''] \<and>
   fst (extract_colors demo_env ''imgs/a.png'' 2 True
          (run_calls [(demo_env, ''imgs/sub/b.PNG'', 1, False)]
             (snd (extract_colors demo_env ''imgs/a.png'' 1 True s0)))) = Inr [''#ff0000'']"
  using render_failure_leaves_cache[of demo_env "''imgs/a.png''" s0 "[red_px]" 1 "[(1,0,0)]" "[''#ff0000'']"
          "Exception ''Axes object is not subscriptable''" demo_env 2 True
          "[(demo_env, ''imgs/sub/b.PNG'', 1, False)]"]
  by (simp add: demo_facts s0_def demo_show_def)

text \<open>
  Without the file the later call does not reach the cache: it returns the empty list.
\<close>

theorem stale_after_render_failure_counterexample:
  "fst (extract_colors demo_env ''imgs/a.png'' 1 True s0) = Inr [] \<and>
   color_cache (snd (extract_colors demo_env ''imgs/a.png'' 1 True s0)) ''imgs/a.png'' = Some [''#ff0000''] \<and>
   fst (extract_colors removed_env ''imgs/a.png'' 1 True
          (snd (extract_colors demo_env ''imgs/a.png'' 1 True s0))) = Inr [] \<and>
   fst (extract_colors removed_env ''imgs/a.png'' 1 True
          (snd (extract_colors demo_env ''imgs/a.png'' 1 True s0))) \<noteq> Inr [''#ff0000'']"
  by (simp add: shown_call extract_colors_not_found removed_env_def)

text \<open>
  Claim C5. The cache is keyed by the path alone. On the red-and-blue image a call with
  \<open>k = 2\<close> returns two colours, and the next call with \<open>k = 1\<close> returns the same two
  colours from the cache: a list longer than \<open>k\<close>.
\<close>

theorem cached_palette_longer_than_k:
  "fst (extract_colors demo_env ''imgs/sub/a.png'' 2 False s0) = Inr [''#ff0000'', ''#0000ff''] \<and>
   fst (extract_colors demo_env ''imgs/sub/a.png'' 1 False
          (snd (extract_colors demo_env ''imgs/sub/a.png'' 2 False s0))) = Inr [''#ff0000'', ''#0000ff''] \<and>
   \<not> length [''#ff0000'', ''#0000ff''] \<le> nat 1"
  by (simp add: two_color_call extract_colors_hit demo_facts)

section \<open>Facts about analyze_directory\<close>

lemma files_loop_Cons:
  "files_loop E k d ag r (f # fs) a s =
     (case files_loop E k d ag r [f] a s of
        (Inl e, s') \<Rightarrow> (Inl e, s')
      | (Inr a', s') \<Rightarrow> files_loop E k d ag r fs a' s')"
  by (simp add: Let_def split: prod.splits sum.splits)

lemma files_loop_pairs:
  "files_loop E k d ag r fs a s = pairs_loop E k d ag (map (Pair r) fs) a s"
proof (induction fs arbitrary: a s)
  case Nil show ?case by simp
next
  case (Cons f fs)
  show ?case by (subst files_loop_Cons) (simp add: Cons.IH split: prod.splits sum.splits)
qed

lemma pairs_loop_append:
  "pairs_loop E k d ag (ps @ qs) a s =
     (case pairs_loop E k d ag ps a s of
        (Inl e, s') \<Rightarrow> (Inl e, s')
      | (Inr a', s') \<Rightarrow> pairs_loop E k d ag qs a' s')"
proof (induction ps arbitrary: a s)
  case Nil show ?case by simp
next
  case (Cons p ps)
  obtain r f where p: "p = (r, f)" by (cases p)
  show ?case unfolding p by (simp add: Cons.IH split: prod.splits sum.splits)
qed

lemma walk_loop_pairs:
  "walk_loop E k d ag dirs a s = pairs_loop E k d ag (walk_files dirs) a s"
proof (induction dirs arbitrary: a s)
  case Nil show ?case by (simp add: walk_files_def)
next
  case (Cons dir dirs)
  obtain r fs where dir: "dir = (r, fs)" by (cases dir)
  have "walk_files (dir # dirs) = map (Pair r) fs @ walk_files dirs"
    by (simp add: walk_files_def dir)
  then show ?case
    by (simp add: dir pairs_loop_append files_loop_pairs Cons.IH split: prod.splits sum.splits)
qed

lemma visit_returns: "\<exists>cs s'. visit_file E k d r f s = (Inr cs, s')"
  using extract_colors_returns[of E "path_join r f" k d "logging INFO (AnalyzingImage (path_join r f)) s"]
  unfolding visit_file_def by (metis prod.collapse)

lemma files_loop_single:
  "files_loop E k d ag r [f] a s =
     (if supported f then
        (case visit_file E k d r f s of
           (Inl e, s2) \<Rightarrow> (Inl e, s2)
         | (Inr cs, s2) \<Rightarrow>
             if cs \<noteq> [] then
               (if ag then
                  (case accumulate 0 cs (aggregate_colors a) of
                     Inl e \<Rightarrow> (Inl e, s2)
                   | Inr agg \<Rightarrow>
                       (Inr (a\<lparr>results := AList.update f cs (results a), aggregate_colors := agg,
                                 image_count := image_count a + 1\<rparr>), s2))
                else (Inr (a\<lparr>results := AList.update f cs (results a)\<rparr>), s2))
             else (Inr a, s2))
      else (Inr a, s))"
  by (simp add: visit_file_def Let_def split: prod.splits sum.splits)

declare files_loop.simps [simp del] pairs_loop.simps(2) [simp del]

lemma length_update_le: "length (AList.update k v al) \<le> Suc (length al)"
  by (induction al) auto

lemma step_False:
  assumes "visit_file E k d r f s = (Inr cs, s2)"
  shows "pairs_loop E k d False ((r, f) # rest) a s =
           (if supported f
            then pairs_loop E k d False rest
                   (if cs \<noteq> [] then a\<lparr>results := AList.update f cs (results a)\<rparr> else a) s2
            else pairs_loop E k d False rest a s)"
  using assms by (simp add: pairs_loop.simps(2) files_loop_single)

lemma pairs_loop_False:
  "\<exists>a'. fst (pairs_loop E k d False ps a s) = Inr a' \<and>
     length (results a') \<le> length (results a) + length (filter (\<lambda>p. supported (snd p)) ps) \<and>
     fst ` set (results a') \<subseteq> fst ` set (results a) \<union> {f \<in> snd ` set ps. supported f} \<and>
     (distinct (map fst (results a)) \<longrightarrow> distinct (map fst (results a'))) \<and>
     (\<forall>g. g \<notin> snd ` set ps \<longrightarrow> map_of (results a') g = map_of (results a) g)"
proof (induction ps arbitrary: a s)
  case Nil show ?case by simp
next
  case (Cons p ps)
  obtain r f where p: "p = (r, f)" by (cases p)
  obtain cs s2 where v: "visit_file E k d r f s = (Inr cs, s2)" using visit_returns by blast
  show ?case
  proof (cases "supported f")
    case False
    from Cons.IH[of a s] obtain a' where a': "fst (pairs_loop E k d False ps a s) = Inr a'"
      "length (results a') \<le> length (results a) + length (filter (\<lambda>p. supported (snd p)) ps)"
      "fst ` set (results a') \<subseteq> fst ` set (results a) \<union> {f \<in> snd ` set ps. supported f}"
      "distinct (map fst (results a)) \<longrightarrow> distinct (map fst (results a'))"
      "\<forall>g. g \<notin> snd ` set ps \<longrightarrow> map_of (results a') g = map_of (results a) g" by blast
    have "pairs_loop E k d False (p # ps) a s = pairs_loop E k d False ps a s"
      using False by (simp add: p step_False[OF v])
    with a' False show ?thesis by (auto simp: p)
  next
    case True
    let ?a1 = "if cs \<noteq> [] then a\<lparr>results := AList.update f cs (results a)\<rparr> else a"
    from Cons.IH[of ?a1 s2] obtain a' where a': "fst (pairs_loop E k d False ps ?a1 s2) = Inr a'"
      "length (results a') \<le> length (results ?a1) + length (filter (\<lambda>p. supported (snd p)) ps)"
      "fst ` set (results a') \<subseteq> fst ` set (results ?a1) \<union> {f \<in> snd ` set ps. supported f}"
      "distinct (map fst (results ?a1)) \<longrightarrow> distinct (map fst (results a'))"
      "\<forall>g. g \<notin> snd ` set ps \<longrightarrow> map_of (results a') g = map_of (results ?a1) g" by blast
    have eq: "pairs_loop E k d False (p # ps) a s = pairs_loop E k d False ps ?a1 s2"
      using True by (simp add: p step_False[OF v])
    have l1: "length (results ?a1) \<le> length (results a) + 1"
      by (simp add: length_update_le)
    have d1: "fst ` set (results ?a1) \<subseteq> fst ` set (results a) \<union> {f}"
      by (auto simp: AList.dom_update)
    have di1: "distinct (map fst (results a)) \<longrightarrow> distinct (map fst (results ?a1))"
      by (simp add: AList.distinct_update)
    have m1: "\<forall>g. g \<noteq> f \<longrightarrow> map_of (results ?a1) g = map_of (results a) g"
      by (simp add: AList.update_conv')
    show ?thesis
    proof (intro exI[of _ a'] conjI)
      show "fst (pairs_loop E k d False (p # ps) a s) = Inr a'" using eq a'(1) by simp
      show "length (results a') \<le> length (results a) + length (filter (\<lambda>p. supported (snd p)) (p # ps))"
        using a'(2) l1 True by (simp add: p)
      show "fst ` set (results a') \<subseteq> fst ` set (results a) \<union> {f \<in> snd ` set (p # ps). supported f}"
        using a'(3) d1 True by (auto simp: p)
      show "distinct (map fst (results a)) \<longrightarrow> distinct (map fst (results a'))"
        using a'(4) di1 by blast
      show "\<forall>g. g \<notin> snd ` set (p # ps) \<longrightarrow> map_of (results a') g = map_of (results a) g"
        using a'(5) m1 by (auto simp: p)
    qed
  qed
qed

lemma pairs_loop_unsupported:
  "pairs_loop E k d ag (filter (\<lambda>p. supported (snd p)) ps) a s = pairs_loop E k d ag ps a s"
proof (induction ps arbitrary: a s)
  case Nil show ?case by simp
next
  case (Cons p ps)
  obtain r f where p: "p = (r, f)" by (cases p)
  show ?case
  proof (cases "supported f")
    case True then show ?thesis
      by (simp add: p pairs_loop.simps(2) Cons.IH split: prod.splits sum.splits)
  next
    case False
    then have "files_loop E k d ag r [f] a s = (Inr a, s)" by (simp add: files_loop_single)
    with False show ?thesis by (simp add: p pairs_loop.simps(2) Cons.IH)
  qed
qed

lemma walk_files_filter:
  "walk_files (map (\<lambda>(r, fs). (r, filter supported fs)) dirs) = filter (\<lambda>p. supported (snd p)) (walk_files dirs)"
  by (induction dirs) (auto simp: walk_files_def filter_map comp_def)

lemma extract_colors_walk: "extract_colors (E\<lparr>walk := w\<rparr>) p k d s = extract_colors E p k d s"
  by (simp add: extract_defs cong: option.case_cong sum.case_cong prod.case_cong if_cong)

lemma files_loop_walk: "files_loop (E\<lparr>walk := w\<rparr>) k d ag r fs a s = files_loop E k d ag r fs a s"
  by (induction fs arbitrary: ag a s)
     (simp_all add: files_loop.simps extract_colors_walk Let_def
        cong: option.case_cong sum.case_cong prod.case_cong if_cong)

lemma pairs_loop_walk: "pairs_loop (E\<lparr>walk := w\<rparr>) k d ag ps a s = pairs_loop E k d ag ps a s"
  by (induction ps arbitrary: a s)
     (auto simp: pairs_loop.simps(2) files_loop_walk split: prod.splits sum.splits)

lemma extractions_append:
  "extractions E k d (ps @ qs) s =
     extractions E k d ps s @ extractions E k d qs (snd (pairs_loop E k d False ps a s))"
proof (induction ps arbitrary: a s)
  case Nil show ?case by simp
next
  case (Cons p ps)
  obtain r f where p: "p = (r, f)" by (cases p)
  obtain cs s2 where v: "visit_file E k d r f s = (Inr cs, s2)" using visit_returns by blast
  show ?case using Cons.IH by (simp add: p v step_False[OF v])
qed

lemma pairs_loop_no_success:
  "\<forall>cs\<in>set (extractions E k d ps s). cs = [] \<Longrightarrow> pairs_loop E k d ag ps a s = (Inr a, snd (pairs_loop E k d ag ps a s))"
proof (induction ps arbitrary: a s)
  case Nil show ?case by simp
next
  case (Cons p ps)
  obtain r f where p: "p = (r, f)" by (cases p)
  obtain cs s2 where v: "visit_file E k d r f s = (Inr cs, s2)" using visit_returns by blast
  show ?case
  proof (cases "supported f")
    case False
    then have "pairs_loop E k d ag (p # ps) a s = pairs_loop E k d ag ps a s"
      by (simp add: p pairs_loop.simps(2) files_loop_single)
    moreover have "\<forall>cs\<in>set (extractions E k d ps s). cs = []" using Cons.prems False by (simp add: p)
    ultimately show ?thesis using Cons.IH by simp
  next
    case True
    with Cons.prems have cs: "cs = []" and rest: "\<forall>cs\<in>set (extractions E k d ps s2). cs = []"
      by (simp_all add: p v)
    have "pairs_loop E k d ag (p # ps) a s = pairs_loop E k d ag ps a s2"
      using True cs by (simp add: p pairs_loop.simps(2) files_loop_single v)
    then show ?thesis using Cons.IH[OF rest] by simp
  qed
qed

lemma single_entry:
  "distinct (map fst m) \<Longrightarrow> map_of m f = Some v \<Longrightarrow> filter (\<lambda>e. fst e = f) m = [(f, v)]"
proof (induction m)
  case Nil then show ?case by simp
next
  case (Cons e m)
  show ?case
  proof (cases "fst e = f")
    case True
    with Cons.prems have "e = (f, v)" by (cases e) auto
    moreover have "f \<notin> fst ` set m" using Cons.prems(1) True by auto
    then have "filter (\<lambda>e. fst e = f) m = []"
      unfolding filter_empty_conv by (metis imageI)
    ultimately show ?thesis by simp
  next
    case False
    with Cons show ?thesis by (cases e) auto
  qed
qed

lemma analyze_pairs:
  "analyze_directory E directory k d False s =
     (case pairs_loop E k d False (walk_files (walk E directory))
             \<lparr>results = [], aggregate_colors = (\<lambda>i. (0, 0, 0)), image_count = 0\<rparr> s of
        (Inl e, s') \<Rightarrow> (Inl e, s')
      | (Inr a, s') \<Rightarrow> (Inr (Mapping (results a)), s'))"
  by (simp add: analyze_directory_def walk_loop_pairs cong: prod.case_cong sum.case_cong)

subsection \<open>The walks of the concrete environment\<close>

lemma visit_miss:
  assumes "path_exists E (path_join r f)" "color_cache s (path_join r f) = None"
    "image_open E (path_join r f) = Inr (Inr px)"
    "kmeans E (normalize_pixels px) k = Inr cents" "colors_hex cents = Inr hs"
  shows "\<exists>s'. visit_file E k False r f s = (Inr hs, s') \<and>
              color_cache s' = (color_cache s)(path_join r f \<mapsto> hs)"
  using assms by (simp add: visit_file_def extract_defs)

lemma visit_kmeans_fails:
  assumes "path_exists E (path_join r f)" "color_cache s (path_join r f) = None"
    "image_open E (path_join r f) = Inr (Inr px)"
    "kmeans E (normalize_pixels px) k = Inl e"
  shows "\<exists>s'. visit_file E k d r f s = (Inr [], s') \<and> color_cache s' = color_cache s"
  using assms by (cases e) (simp_all add: visit_file_def extract_defs)

lemma step_unsupported:
  "\<not> supported f \<Longrightarrow> pairs_loop E k d ag ((r, f) # rest) a s = pairs_loop E k d ag rest a s"
  by (simp add: pairs_loop.simps(2) files_loop_single)

lemma demo_supported:
  "supported ''a.png''" "supported ''b.PNG''" "supported ''red.png''" "supported ''blue.png''"
  "\<not> supported ''notes.txt''"
  by code_simp+

lemma demo_join:
  "path_join ''imgs'' ''a.png'' = ''imgs/a.png''"
  "path_join ''imgs/sub'' ''b.PNG'' = ''imgs/sub/b.PNG''"
  "path_join ''imgs/sub'' ''a.png'' = ''imgs/sub/a.png''"
  "path_join ''pair'' ''red.png'' = ''pair/red.png''"
  "path_join ''pair'' ''blue.png'' = ''pair/blue.png''"
  by code_simp+

lemma demo_walk_files:
  "walk_files (walk demo_env ''imgs'') =
     [(''imgs'', ''a.png''), (''imgs'', ''notes.txt''), (''imgs/sub'', ''b.PNG''), (''imgs/sub'', ''a.png'')]"
  "walk_files (walk demo_env ''pair'') = [(''pair'', ''red.png''), (''pair'', ''blue.png'')]"
  by (simp_all add: demo_fields demo_walk_def walk_files_def)

lemma colors_hex_single: "rgb2hex c = Inr h \<Longrightarrow> colors_hex [c] = Inr [h]"
  by simp

lemma demo_imgs:
  "extractions demo_env 1 False
     [(''imgs'', ''a.png''), (''imgs'', ''notes.txt''), (''imgs/sub'', ''b.PNG''), (''imgs/sub'', ''a.png'')] s0 =
     [[''#ff0000''], [''#0000ff''], [''#800080'']]"
  "fst (pairs_loop demo_env 1 False False
     [(''imgs'', ''a.png''), (''imgs'', ''notes.txt''), (''imgs/sub'', ''b.PNG''), (''imgs/sub'', ''a.png'')]
     \<lparr>results = [], aggregate_colors = (\<lambda>i. (0, 0, 0)), image_count = 0\<rparr> s0) =
     Inr \<lparr>results = [(''a.png'', [''#800080'']), (''b.PNG'', [''#0000ff''])],
          aggregate_colors = (\<lambda>i. (0, 0, 0)), image_count = 0\<rparr>"
proof -
  obtain sA where A: "visit_file demo_env 1 False ''imgs'' ''a.png'' s0 = (Inr [''#ff0000''], sA)"
    and cA: "color_cache sA = (color_cache s0)(''imgs/a.png'' \<mapsto> [''#ff0000''])"
    using visit_miss[of demo_env "''imgs''" "''a.png''" s0 "[red_px]" 1 "[(1, 0, 0)]" "[''#ff0000'']"]
    by (auto simp: demo_facts demo_join s0_def)
  obtain sB where B: "visit_file demo_env 1 False ''imgs/sub'' ''b.PNG'' sA = (Inr [''#0000ff''], sB)"
    and cB: "color_cache sB = (color_cache sA)(''imgs/sub/b.PNG'' \<mapsto> [''#0000ff''])"
    using visit_miss[of demo_env "''imgs/sub''" "''b.PNG''" sA "[blue_px]" 1 "[(0, 0, 1)]" "[''#0000ff'']"]
    by (auto simp: demo_facts demo_join s0_def cA)
  obtain sC where C: "visit_file demo_env 1 False ''imgs/sub'' ''a.png'' sB = (Inr [''#800080''], sC)"
    using visit_miss[of demo_env "''imgs/sub''" "''a.png''" sB "[red_px, blue_px]" 1 "[(1 / 2, 0, 1 / 2)]" "[''#800080'']"]
    by (auto simp: demo_facts demo_join s0_def cA cB)
  show "extractions demo_env 1 False
     [(''imgs'', ''a.png''), (''imgs'', ''notes.txt''), (''imgs/sub'', ''b.PNG''), (''imgs/sub'', ''a.png'')] s0 =
     [[''#ff0000''], [''#0000ff''], [''#800080'']]"
    by (simp add: demo_supported A B C)
  show "fst (pairs_loop demo_env 1 False False
     [(''imgs'', ''a.png''), (''imgs'', ''notes.txt''), (''imgs/sub'', ''b.PNG''), (''imgs/sub'', ''a.png'')]
     \<lparr>results = [], aggregate_colors = (\<lambda>i. (0, 0, 0)), image_count = 0\<rparr> s0) =
     Inr \<lparr>results = [(''a.png'', [''#800080'']), (''b.PNG'', [''#0000ff''])],
          aggregate_colors = (\<lambda>i. (0, 0, 0)), image_count = 0\<rparr>"
    by (simp add: demo_supported step_False[OF A] step_False[OF B] step_False[OF C] step_unsupported)
qed

lemma demo_imgs_result:
  "fst (analyze_directory demo_env ''imgs'' 1 False False s0) =
     Inr (Mapping [(''a.png'', [''#800080'']), (''b.PNG'', [''#0000ff''])])"
proof -
  let ?ps = "[(''imgs'', ''a.png''), (''imgs'', ''notes.txt''), (''imgs/sub'', ''b.PNG''), (''imgs/sub'', ''a.png'')]"
  let ?a0 = "\<lparr>results = [], aggregate_colors = (\<lambda>i. (0, 0, 0)), image_count = 0\<rparr>"
  define s' where "s' = snd (pairs_loop demo_env 1 False False ?ps ?a0 s0)"
  have "pairs_loop demo_env 1 False False ?ps ?a0 s0 =
          (Inr \<lparr>results = [(''a.png'', [''#800080'']), (''b.PNG'', [''#0000ff''])],
                aggregate_colors = (\<lambda>i. (0, 0, 0)), image_count = 0\<rparr>, s')"
    using demo_imgs(2) by (simp add: s'_def prod_eq_iff)
  then show ?thesis by (simp add: analyze_pairs demo_walk_files)
qed

lemma demo_pair_5:
  "extractions demo_env 5 False [(''pair'', ''red.png''), (''pair'', ''blue.png'')] s0 = [[], []]"
proof -
  obtain sA where A: "visit_file demo_env 5 False ''pair'' ''red.png'' s0 = (Inr [], sA)"
    and cA: "color_cache sA = color_cache s0"
    using visit_kmeans_fails[of demo_env "''pair''" "''red.png''" s0 "[red_px]" 5
            "Exception ''n_samples should be >= n_clusters''" False]
    by (auto simp: demo_facts demo_join s0_def demo_kmeans_def)
  obtain sB where B: "visit_file demo_env 5 False ''pair'' ''blue.png'' sA = (Inr [], sB)"
    using visit_kmeans_fails[of demo_env "''pair''" "''blue.png''" sA "[blue_px]" 5
            "Exception ''n_samples should be >= n_clusters''" False]
    by (auto simp: demo_facts demo_join s0_def demo_kmeans_def cA)
  show ?thesis by (simp add: demo_supported A B)
qed

section \<open>The claims about analyze_directory\<close>

text \<open>
  Claim C7. Whatever the directory holds, \<open>analyze_directory\<close> without aggregation runs
  exactly as it does on the same walk with every unsupported file left out: same result,
  same cache, same log, so no unsupported file is opened or recorded. It returns a
  mapping with at most as many entries as the walk has files with a supported extension
  (compared in lower case), and every key of the mapping is such a file name.
\<close>

theorem unsupported_files_ignored:
  "analyze_directory (E\<lparr>walk := \<lambda>dir. map (\<lambda>(r, fs). (r, filter supported fs)) (walk E dir)\<rparr>)
      directory k d False s = analyze_directory E directory k d False s \<and>
   (\<exists>m. fst (analyze_directory E directory k d False s) = Inr (Mapping m) \<and>
        length m \<le> length (filter (\<lambda>p. supported (snd p)) (walk_files (walk E directory))) \<and>
        (\<forall>f\<in>fst ` set m. supported f))"
proof -
  let ?a0 = "\<lparr>results = [], aggregate_colors = (\<lambda>i. (0, 0, 0)), image_count = 0\<rparr>"
  have same: "analyze_directory (E\<lparr>walk := \<lambda>dir. map (\<lambda>(r, fs). (r, filter supported fs)) (walk E dir)\<rparr>)
      directory k d False s = analyze_directory E directory k d False s"
    by (simp add: analyze_pairs walk_files_filter pairs_loop_walk pairs_loop_unsupported)
  obtain a' where a': "fst (pairs_loop E k d False (walk_files (walk E directory)) ?a0 s) = Inr a'"
    "length (results a') \<le> length (results ?a0) + length (filter (\<lambda>p. supported (snd p)) (walk_files (walk E directory)))"
    "fst ` set (results a') \<subseteq> fst ` set (results ?a0) \<union> {f \<in> snd ` set (walk_files (walk E directory)). supported f}"
    using pairs_loop_False[of E k d "walk_files (walk E directory)" ?a0 s] by blast
  define s' where "s' = snd (pairs_loop E k d False (walk_files (walk E directory)) ?a0 s)"
  have "pairs_loop E k d False (walk_files (walk E directory)) ?a0 s = (Inr a', s')"
    using a'(1) by (simp add: s'_def prod_eq_iff)
  then have "fst (analyze_directory E directory k d False s) = Inr (Mapping (results a'))"
    by (simp add: analyze_pairs)
  moreover have "length (results a') \<le> length (filter (\<lambda>p. supported (snd p)) (walk_files (walk E directory)))"
    using a'(2) by simp
  moreover have "\<forall>f\<in>fst ` set (results a'). supported f" using a'(3) by auto
  ultimately show ?thesis using same by blast
qed

theorem unsupported_files_ignored_witness:
  "analyze_directory (demo_env\<lparr>walk := \<lambda>dir. map (\<lambda>(r, fs). (r, filter supported fs)) (walk demo_env dir)\<rparr>)
      ''imgs'' 1 False False s0 = analyze_directory demo_env ''imgs'' 1 False False s0 \<and>
   fst (analyze_directory demo_env ''imgs'' 1 False False s0) =
     Inr (Mapping [(''a.png'', [''#800080'']), (''b.PNG'', [''#0000ff''])]) \<and>
   length (filter (\<lambda>p. supported (snd p)) (walk_files (walk demo_env ''imgs''))) = 3 \<and>
   supported ''a.png'' \<and> supported ''b.PNG'' \<and> \<not> supported ''notes.txt''"
  using unsupported_files_ignored[of demo_env "''imgs''" 1 False s0]
  by (simp add: demo_imgs_result demo_walk_files demo_supported)

text \<open>
  Claim C10. The mapping is keyed by the file name without its directory. When the walk
  visits a supported file \<open>f\<close> in \<open>r\<close> whose extraction gives a non-empty list and no
  later file of the walk has the same name, the mapping has exactly one entry for \<open>f\<close>,
  and it holds the colours of that last visit, whatever earlier files of that name in
  other directories gave.
\<close>

theorem last_file_of_a_name_wins:
  assumes "walk_files (walk E directory) = pre @ (r, f) # post" "supported f" "f \<notin> snd ` set post"
    "last (extractions E k d (pre @ [(r, f)]) s) = colors" "colors \<noteq> []"
  shows "\<exists>m. fst (analyze_directory E directory k d False s) = Inr (Mapping m) \<and>
             filter (\<lambda>e. fst e = f) m = [(f, colors)]"
proof -
  let ?a0 = "\<lparr>results = [], aggregate_colors = (\<lambda>i. (0, 0, 0)), image_count = 0\<rparr>"
  obtain a1 where a1: "fst (pairs_loop E k d False pre ?a0 s) = Inr a1"
    "distinct (map fst (results ?a0)) \<longrightarrow> distinct (map fst (results a1))"
    using pairs_loop_False[of E k d pre ?a0 s] by blast
  define s1 where "s1 = snd (pairs_loop E k d False pre ?a0 s)"
  have pre: "pairs_loop E k d False pre ?a0 s = (Inr a1, s1)" using a1(1) by (simp add: s1_def prod_eq_iff)
  obtain cs s2 where v: "visit_file E k d r f s1 = (Inr cs, s2)" using visit_returns by blast
  have "extractions E k d (pre @ [(r, f)]) s = extractions E k d pre s @ [cs]"
    using assms(2) by (simp add: extractions_append[of E k d pre "[(r, f)]" s ?a0] s1_def[symmetric] v)
  with assms(4,5) have cs: "cs = colors" "cs \<noteq> []" by simp_all
  let ?a2 = "a1\<lparr>results := AList.update f cs (results a1)\<rparr>"
  obtain a3 where a3: "fst (pairs_loop E k d False post ?a2 s2) = Inr a3"
    "distinct (map fst (results ?a2)) \<longrightarrow> distinct (map fst (results a3))"
    "\<forall>g. g \<notin> snd ` set post \<longrightarrow> map_of (results a3) g = map_of (results ?a2) g"
    using pairs_loop_False[of E k d post ?a2 s2] by blast
  have "pairs_loop E k d False (pre @ (r, f) # post) ?a0 s = pairs_loop E k d False post ?a2 s2"
    using assms(2) cs(2) by (simp add: pairs_loop_append pre step_False[OF v])
  moreover define s3 where "s3 = snd (pairs_loop E k d False post ?a2 s2)"
  have "pairs_loop E k d False post ?a2 s2 = (Inr a3, s3)"
    using a3(1) by (simp add: s3_def prod_eq_iff)
  ultimately have res: "fst (analyze_directory E directory k d False s) = Inr (Mapping (results a3))"
    using assms(1) by (simp add: analyze_pairs)
  have "distinct (map fst (results a3))"
    using a1(2) a3(2) by (simp add: AList.distinct_update)
  moreover have "map_of (results a3) f = Some colors"
    using a3(3) assms(3) cs(1) by (simp add: AList.update_conv')
  ultimately have "filter (\<lambda>e. fst e = f) (results a3) = [(f, colors)]" by (rule single_entry)
  with res show ?thesis by blast
qed

theorem last_file_of_a_name_wins_witness:
  "extractions demo_env 1 False (walk_files (walk demo_env ''imgs'')) s0 =
     [[''#ff0000''], [''#0000ff''], [''#800080'']] \<and>
   (\<exists>m. fst (analyze_directory demo_env ''imgs'' 1 False False s0) = Inr (Mapping m) \<and>
        filter (\<lambda>e. fst e = ''a.png'') m = [(''a.png'', [''#800080''])])"
  using last_file_of_a_name_wins[of demo_env "''imgs''"
          "[(''imgs'', ''a.png''), (''imgs'', ''notes.txt''), (''imgs/sub'', ''b.PNG'')]"
          "''imgs/sub''" "''a.png''" "[]" 1 False s0 "[''#800080'']"]
  by (simp add: demo_imgs(1) demo_walk_files demo_supported del: extractions.simps)

text \<open>
  Claim C6. With \<open>aggregate\<close> set, when every extraction of the walk returns the empty
  list (or there is no supported file at all), \<open>analyze_directory\<close> returns without
  raising, and what it returns is the empty \<open>results\<close> dictionary: \<open>image_count\<close> is
  zero and the division is not reached.
\<close>

theorem aggregate_without_success:
  assumes "\<forall>colors\<in>set (extractions E k d (walk_files (walk E directory)) s). colors = []"
  shows "fst (analyze_directory E directory k d True s) = Inr (Mapping [])"
proof -
  let ?a0 = "\<lparr>results = [], aggregate_colors = (\<lambda>i. (0, 0, 0)), image_count = 0\<rparr>"
  have "walk_loop E k d True (walk E directory) ?a0 s =
          (Inr ?a0, snd (pairs_loop E k d True (walk_files (walk E directory)) ?a0 s))"
    using pairs_loop_no_success[OF assms, of True ?a0] by (simp add: walk_loop_pairs)
  then show ?thesis by (simp add: analyze_directory_def)
qed

theorem aggregate_without_success_witness:
  "extractions demo_env 5 False (walk_files (walk demo_env ''pair'')) s0 = [[], []] \<and>
   fst (analyze_directory demo_env ''pair'' 5 False True s0) = Inr (Mapping [])"
  using aggregate_without_success[of demo_env 5 False "''pair''" s0]
  by (simp add: demo_pair_5 demo_walk_files del: extractions.simps)

section \<open>Bounds of the rounding\<close>

lemma py_round_nonneg: "0 \<le> x \<Longrightarrow> 0 \<le> py_round x"
  by (auto simp: py_round_def Let_def)

lemma py_round_le: "x \<le> of_int M \<Longrightarrow> py_round x \<le> M"
proof -
  assume a: "x \<le> of_int M"
  then have f: "\<lfloor>x\<rfloor> \<le> M" by (simp add: floor_le_iff) 
  show ?thesis
  proof (cases "\<lfloor>x\<rfloor> = M")
    case True
    then have "x = of_int M" using a by (metis of_int_floor_le order_antisym)
    then show ?thesis by (simp add: py_round_def)
  next
    case False
    with f have "\<lfloor>x\<rfloor> + 1 \<le> M" by simp
    then show ?thesis using f by (auto simp: py_round_def Let_def)
  qed
qed

lemma ilog2_le: "0 < x \<Longrightarrow> 2 powi (ilog2 x) \<le> x"
proof -
  assume x: "0 < x"
  obtain a b where q: "quotient_of x = (a, b)" by (cases "quotient_of x")
  have b: "0 < b" using quotient_of_denom_pos[OF q] .
  have xab: "x = of_int a / of_int b" using quotient_of_div[OF q] .
  have a: "0 < a" using x b xab by (simp add: zero_less_divide_iff)
  let ?d = "bitlen a - bitlen b"
  show ?thesis
  proof (cases "2 powi ?d \<le> x")
    case True then show ?thesis by (simp add: ilog2_def q)
  next
    case False
    have la: "(2::int) ^ nat (bitlen a - 1) \<le> a" using bitlen_bounds[OF a] by simp
    have ub: "b < 2 ^ nat (bitlen b)" using bitlen_bounds[OF b] by simp
    have pa: "0 < bitlen a"
    proof (rule ccontr)
      assume "\<not> 0 < bitlen a"
      then have "nat (bitlen a) = 0" by simp
      with bitlen_bounds[OF a] a show False by simp
    qed
    have pb: "0 < bitlen b"
    proof (rule ccontr)
      assume "\<not> 0 < bitlen b"
      then have "nat (bitlen b) = 0" by simp
      with bitlen_bounds[OF b] b show False by simp
    qed
    have "(2::rat) powi (bitlen a - 1) \<le> of_int a"
    proof -
      have "(2::rat) powi (bitlen a - 1) = of_int (2 ^ nat (bitlen a - 1))"
        using pa by (simp add: power_int_def)
      also have "\<dots> \<le> of_int a" using la by (simp only: of_int_le_iff)
      finally show ?thesis .
    qed
    moreover have "(of_int b :: rat) \<le> 2 powi (bitlen b)"
    proof -
      have "(of_int b :: rat) \<le> of_int (2 ^ nat (bitlen b))" using ub by (simp only: of_int_le_iff)
      also have "\<dots> = 2 powi (bitlen b)" using pb by (simp add: power_int_def)
      finally show ?thesis .
    qed
    moreover have "(2::rat) powi (?d - 1) = 2 powi (bitlen a - 1) / 2 powi (bitlen b)"
      by (simp add: power_int_diff)
    ultimately have "(2::rat) powi (?d - 1) \<le> of_int a / of_int b"
      using b a by (simp add: frac_le)
    then have "(2::rat) powi (?d - 1) \<le> x" by (simp only: xab)
    moreover have "ilog2 x = ?d - 1" using False by (simp add: ilog2_def q)
    ultimately show ?thesis by simp
  qed
qed

lemma fl_nonneg: "0 \<le> x \<Longrightarrow> 0 \<le> fl p x"
  by (auto simp: fl_def Let_def py_round_nonneg intro!: mult_nonneg_nonneg)

lemma fl_le_nat:
  assumes "0 \<le> x" "x \<le> of_nat N" "N < 2 ^ p" "0 < p"
  shows "fl p x \<le> of_nat N"
proof (cases "x = 0")
  case True then show ?thesis by (simp add: fl_def)
next
  case False
  with assms(1) have x: "0 < x" by simp
  define L where "L = ilog2 x"
  define e where "e = L - (int p - 1)"
  have "(2::rat) powi L \<le> x" unfolding L_def by (rule ilog2_le[OF x])
  also have "\<dots> \<le> of_nat N" by (rule assms(2))
  also have "\<dots> < 2 ^ p" using assms(3) by (metis of_nat_less_iff of_nat_numeral of_nat_power)
  finally have "(2::rat) powi L < 2 powi (int p)" by simp
  then have "L < int p" by (rule power_int_le_imp_less_exp[rotated]) simp_all
  then have e: "e \<le> 0" by (simp add: e_def)
  define M where "M = int N * 2 ^ nat (- e)"
  have pw: "(2::rat) powi e = 1 / 2 ^ nat (- e)" using e by (simp add: power_int_def field_simps)
  have "x / 2 powi e \<le> of_int M"
    using assms(2) by (simp add: pw M_def mult_right_mono)
  then have "py_round (x / 2 powi e) \<le> M" by (rule py_round_le)
  then have "(of_int (py_round (x / 2 powi e)) :: rat) \<le> of_int M" by (simp only: of_int_le_iff)
  then have "(of_int (py_round (x / 2 powi e)) :: rat) * 2 powi e \<le> of_int M * 2 powi e"
    by (simp add: mult_right_mono)
  also have "\<dots> = of_nat N" by (simp add: pw M_def)
  finally show ?thesis using x by (simp add: fl_def Let_def L_def[symmetric] e_def[symmetric])
qed

section \<open>Colours read back and the aggregation loop\<close>

lemma hex_val_digit: "d < 16 \<Longrightarrow> hex_val (hex_digit d) = Some d"
proof -
  have "list_all (\<lambda>d. hex_val (hex_digit d) = Some d) [0..<16]" by code_simp
  then show "d < 16 \<Longrightarrow> hex_val (hex_digit d) = Some d" by (simp add: list_all_iff)
qed

lemma format_02x_byte:
  assumes "0 \<le> n" "n \<le> 255"
  shows "format_02x n = [hex_digit (nat n div 16), hex_digit (nat n mod 16)]"
proof (cases "nat n < 16")
  case True
  then have "hex_digits (nat n) = [hex_digit (nat n)]" by (subst hex_digits.simps) simp
  moreover have "hex_digit 0 = CHR ''0''" by (simp add: hex_digit_def)
  ultimately show ?thesis using assms True by (simp add: format_02x_def Let_def)
next
  case False
  have d: "nat n div 16 < 16" using assms by simp
  have "hex_digits (nat n) = hex_digits (nat n div 16) @ [hex_digit (nat n mod 16)]"
    using False by (subst hex_digits.simps) simp
  moreover have "hex_digits (nat n div 16) = [hex_digit (nat n div 16)]"
    using d by (subst hex_digits.simps) simp
  moreover have "hex_digit (nat n mod 16 mod 16) = hex_digit (nat n mod 16)" by simp
  ultimately show ?thesis using assms by (simp add: format_02x_def Let_def)
qed

lemma byte_range:
  assumes "0 \<le> v" "v \<le> 1"
  shows "0 \<le> py_round (fmul v 255) \<and> py_round (fmul v 255) \<le> 255"
proof -
  have "0 \<le> fl 53 (v * 255)" using assms by (simp add: fl_nonneg)
  moreover have "fl 53 (v * 255) \<le> of_nat 255"
    by (rule fl_le_nat) (use assms in simp_all)
  ultimately show ?thesis using py_round_nonneg[of "fmul v 255"] py_round_le[of "fmul v 255" 255]
    by (simp add: fmul_def)
qed

lemma hex_pair:
  assumes "0 \<le> v" "v \<le> 1"
  shows "\<exists>a b. format_02x (py_round (fmul v 255)) = [a, b] \<and> hex_val a \<noteq> None \<and> hex_val b \<noteq> None"
proof -
  let ?n = "py_round (fmul v 255)"
  from byte_range[OF assms] have n: "0 \<le> ?n" "?n \<le> 255" by simp_all
  have "nat ?n div 16 < 16" "nat ?n mod 16 < 16" using n by simp_all
  then show ?thesis using format_02x_byte[OF n] by (simp add: hex_val_digit)
qed

lemma rgb2hex_hex_color: "rgb2hex c = Inr h \<Longrightarrow> hex_color h"
proof -
  assume a: "rgb2hex c = Inr h"
  obtain r g b where c: "c = (r, g, b)" by (cases c)
  from a c have rg: "0 \<le> r" "r \<le> 1" "0 \<le> g" "g \<le> 1" "0 \<le> b" "b \<le> 1"
    by (auto simp: rgb2hex_def split: if_splits)
  from hex_pair[OF rg(1,2)] hex_pair[OF rg(3,4)] hex_pair[OF rg(5,6)]
  obtain r1 r2 g1 g2 b1 b2 where
    "format_02x (py_round (fmul r 255)) = [r1, r2]" "hex_val r1 \<noteq> None" "hex_val r2 \<noteq> None"
    "format_02x (py_round (fmul g 255)) = [g1, g2]" "hex_val g1 \<noteq> None" "hex_val g2 \<noteq> None"
    "format_02x (py_round (fmul b 255)) = [b1, b2]" "hex_val b1 \<noteq> None" "hex_val b2 \<noteq> None"
    by blast
  with a c rg show ?thesis by (auto simp: rgb2hex_def hex_color_def)
qed

lemma colors_hex_hex_color: "colors_hex cs = Inr hs \<Longrightarrow> \<forall>h\<in>set hs. hex_color h"
  by (induction cs arbitrary: hs) (auto split: sum.splits dest: rgb2hex_hex_color)

lemma hex_val_less: "hex_val x = Some d \<Longrightarrow> d < 16"
  by (auto simp: hex_val_def Let_def split: if_splits)

lemma int16_pair:
  assumes "hex_val a \<noteq> None" "hex_val b \<noteq> None"
  shows "\<exists>n. int16 [a, b] = Inr n \<and> n \<le> 255"
proof -
  from assms obtain x y where xy: "hex_val a = Some x" "hex_val b = Some y" by auto
  with hex_val_less[OF xy(1)] hex_val_less[OF xy(2)] show ?thesis by (simp add: int16_def)
qed

lemma color_channels_hex:
  assumes "hex_color c"
  shows "\<exists>r g b. color_channels c = Inr (r, g, b) \<and> r \<le> 255 \<and> g \<le> 255 \<and> b \<le> 255"
proof -
  from assms obtain c0 c1 c2 c3 c4 c5 c6 where c: "c = [c0, c1, c2, c3, c4, c5, c6]"
    by (auto simp: hex_color_def numeral_eq_Suc length_Suc_conv)
  with assms have h: "hex_val c1 \<noteq> None" "hex_val c2 \<noteq> None" "hex_val c3 \<noteq> None"
    "hex_val c4 \<noteq> None" "hex_val c5 \<noteq> None" "hex_val c6 \<noteq> None"
    by (simp_all add: hex_color_def)
  from int16_pair[OF h(1,2)] int16_pair[OF h(3,4)] int16_pair[OF h(5,6)]
  obtain r g b where "int16 [c1, c2] = Inr r" "r \<le> 255" "int16 [c3, c4] = Inr g" "g \<le> 255"
    "int16 [c5, c6] = Inr b" "b \<le> 255" by blast
  then show ?thesis by (simp add: color_channels_def c numeral_eq_Suc)
qed

lemma color_channels_channels: "hex_color c \<Longrightarrow> color_channels c = Inr (channels c)"
  using color_channels_hex[of c] by (auto simp: channels_def)

lemma channels_le:
  "hex_color c \<Longrightarrow> fst (channels c) \<le> 255 \<and> fst (snd (channels c)) \<le> 255 \<and> snd (snd (channels c)) \<le> 255"
  using color_channels_hex[of c] by (auto simp: channels_def)

lemma accumulate_hex:
  "\<forall>c\<in>set cs. hex_color c \<Longrightarrow>
   accumulate i cs agg =
     Inr (\<lambda>j. if i \<le> j \<and> j < i + length cs then add3 (agg j) (channels (cs ! (j - i))) else agg j)"
proof (induction cs arbitrary: i agg)
  case Nil show ?case by (auto simp: fun_eq_iff)
next
  case (Cons c cs)
  obtain r g b where ch: "channels c = (r, g, b)" by (cases "channels c")
  have cc: "color_channels c = Inr (r, g, b)" using Cons.prems ch by (simp add: color_channels_channels)
  obtain r0 g0 b0 where ag: "agg i = (r0, g0, b0)" by (cases "agg i")
  have "accumulate i (c # cs) agg = accumulate (i + 1) cs (agg(i := add3 (agg i) (channels c)))"
    by (simp add: cc ch ag)
  also have "\<dots> = Inr (\<lambda>j. if i + 1 \<le> j \<and> j < i + 1 + length cs
                          then add3 ((agg(i := add3 (agg i) (channels c))) j) (channels (cs ! (j - (i + 1))))
                          else (agg(i := add3 (agg i) (channels c))) j)"
    using Cons.prems by (intro Cons.IH) simp
  also have "\<dots> = Inr (\<lambda>j. if i \<le> j \<and> j < i + length (c # cs)
                          then add3 (agg j) (channels ((c # cs) ! (j - i))) else agg j)"
  proof -
    have "(if i + 1 \<le> j \<and> j < i + 1 + length cs
           then add3 ((agg(i := add3 (agg i) (channels c))) j) (channels (cs ! (j - (i + 1))))
           else (agg(i := add3 (agg i) (channels c))) j) =
          (if i \<le> j \<and> j < i + length (c # cs)
           then add3 (agg j) (channels ((c # cs) ! (j - i))) else agg j)" for j
    proof -
      consider "j < i" | "j = i" | "i < j" by linarith
      then show ?thesis
      proof cases
        case 1 then show ?thesis by simp
      next
        case 2 then show ?thesis by simp
      next
        case 3
        then have "j - i = Suc (j - (i + 1))" by simp
        then have "(c # cs) ! (j - i) = cs ! (j - (i + 1))" by (simp only: nth_Cons_Suc)
        then show ?thesis using 3 by simp
      qed
    qed
    then show ?thesis by simp
  qed
  finally show ?case .
qed

lemma add3_assoc: "add3 (add3 a b) c = add3 a (add3 b c)"
  by (cases a; cases b; cases c) simp

lemma add3_zero: "add3 a (0, 0, 0) = a"
  by (cases a) simp

lemma add3_zero_left: "add3 (0, 0, 0) a = a"
  by (cases a) simp

lemma extract_colors_shape:
  "(color_cache (snd (extract_colors E p k d s)) = color_cache s \<and>
      (fst (extract_colors E p k d s) = Inr [] \<or>
       (\<exists>cs. color_cache s p = Some cs \<and> fst (extract_colors E p k d s) = Inr cs))) \<or>
   (\<exists>cents hs. colors_hex cents = Inr hs \<and>
      color_cache (snd (extract_colors E p k d s)) = (color_cache s)(p \<mapsto> hs) \<and>
      (fst (extract_colors E p k d s) = Inr hs \<or> fst (extract_colors E p k d s) = Inr []))"
  by (auto simp: extract_defs split: option.splits sum.splits exn.splits prod.splits)

lemma cache_ok_logging: "cache_ok (logging l m s) = cache_ok s"
  by (simp add: cache_ok_def logging_def)

lemma extract_colors_hex:
  assumes "cache_ok s"
  shows "cache_ok (snd (extract_colors E p k d s)) \<and>
         (\<forall>cs. fst (extract_colors E p k d s) = Inr cs \<longrightarrow> (\<forall>c\<in>set cs. hex_color c))"
  using extract_colors_shape[of E p k d s] assms
  by (auto simp: cache_ok_def dest!: colors_hex_hex_color split: if_splits)

lemma visit_hex:
  assumes "cache_ok s" "visit_file E k d r f s = (Inr cs, s')"
  shows "cache_ok s'" "\<forall>c\<in>set cs. hex_color c"
  using extract_colors_hex[of "logging INFO (AnalyzingImage (path_join r f)) s" E "path_join r f" k d] assms
  by (simp_all add: visit_file_def cache_ok_logging)

lemma step_empty:
  assumes "visit_file E k d r f s = (Inr [], s2)" "supported f"
  shows "pairs_loop E k d ag ((r, f) # rest) a s = pairs_loop E k d ag rest a s2"
  using assms by (simp add: pairs_loop.simps(2) files_loop_single)

lemma step_True:
  assumes "visit_file E k d r f s = (Inr cs, s2)" "supported f" "cs \<noteq> []"
    "accumulate 0 cs (aggregate_colors a) = Inr agg"
  shows "pairs_loop E k d True ((r, f) # rest) a s =
           pairs_loop E k d True rest
             (a\<lparr>results := AList.update f cs (results a), aggregate_colors := agg,
                 image_count := image_count a + 1\<rparr>) s2"
  using assms by (simp add: pairs_loop.simps(2) files_loop_single)

lemma pairs_loop_True:
  assumes "cache_ok s"
    "\<forall>p\<in>set (filter (\<lambda>cs. cs \<noteq> []) (extractions E k d ps s)). length p = n"
  shows "\<exists>a' s'. pairs_loop E k d True ps a s = (Inr a', s') \<and>
     image_count a' = image_count a + length (filter (\<lambda>cs. cs \<noteq> []) (extractions E k d ps s)) \<and>
     (\<forall>i<n. aggregate_colors a' i =
        add3 (aggregate_colors a i) (channel_sums (filter (\<lambda>cs. cs \<noteq> []) (extractions E k d ps s)) i)) \<and>
     (\<forall>p\<in>set (extractions E k d ps s). \<forall>c\<in>set p. hex_color c)"
  using assms
proof (induction ps arbitrary: a s)
  case Nil show ?case by (simp add: add3_zero)
next
  case (Cons q ps)
  obtain r f where q: "q = (r, f)" by (cases q)
  obtain cs s2 where v: "visit_file E k d r f s = (Inr cs, s2)" using visit_returns by blast
  show ?case
  proof (cases "supported f")
    case False
    then have e: "extractions E k d (q # ps) s = extractions E k d ps s" by (simp add: q)
    have l: "pairs_loop E k d True (q # ps) a s = pairs_loop E k d True ps a s"
      using False by (simp add: q step_unsupported)
    show ?thesis unfolding e l using Cons.IH[OF Cons.prems(1)] Cons.prems(2) unfolding e by blast
  next
    case True
    have e: "extractions E k d (q # ps) s = cs # extractions E k d ps s2"
      using True by (simp add: q v)
    have ok: "cache_ok s2" and hx: "\<forall>c\<in>set cs. hex_color c"
      using visit_hex[OF Cons.prems(1) v] by simp_all
    show ?thesis
    proof (cases "cs = []")
      case True
      have l: "pairs_loop E k d True (q # ps) a s = pairs_loop E k d True ps a s2"
        using v \<open>supported f\<close> True by (simp add: q step_empty)
      have p2: "\<forall>p\<in>set (filter (\<lambda>cs. cs \<noteq> []) (extractions E k d ps s2)). length p = n"
        using Cons.prems(2) unfolding e by simp
      from Cons.IH[OF ok p2, of a] show ?thesis unfolding e l using True by simp
    next
      case False
      let ?agg = "\<lambda>j. if 0 \<le> j \<and> j < 0 + length cs
                      then add3 (aggregate_colors a j) (channels (cs ! (j - 0))) else aggregate_colors a j"
      let ?a1 = "a\<lparr>results := AList.update f cs (results a), aggregate_colors := ?agg,
                    image_count := image_count a + 1\<rparr>"
      have acc: "accumulate 0 cs (aggregate_colors a) = Inr ?agg" by (rule accumulate_hex[OF hx])
      have l: "pairs_loop E k d True (q # ps) a s = pairs_loop E k d True ps ?a1 s2"
        unfolding q by (rule step_True[OF v \<open>supported f\<close> False acc])
      have len: "length cs = n" using Cons.prems(2) False unfolding e by simp
      have p2: "\<forall>p\<in>set (filter (\<lambda>cs. cs \<noteq> []) (extractions E k d ps s2)). length p = n"
        using Cons.prems(2) unfolding e by simp
      from Cons.IH[OF ok p2, of ?a1] obtain a' s' where
        r: "pairs_loop E k d True ps ?a1 s2 = (Inr a', s')"
        and c: "image_count a' = image_count ?a1 + length (filter (\<lambda>cs. cs \<noteq> []) (extractions E k d ps s2))"
        and g: "\<forall>i<n. aggregate_colors a' i =
                  add3 (aggregate_colors ?a1 i) (channel_sums (filter (\<lambda>cs. cs \<noteq> []) (extractions E k d ps s2)) i)"
        and h: "\<forall>p\<in>set (extractions E k d ps s2). \<forall>c\<in>set p. hex_color c"
        by blast
      have "\<forall>i<n. aggregate_colors a' i =
              add3 (aggregate_colors a i) (channel_sums (filter (\<lambda>cs. cs \<noteq> []) (cs # extractions E k d ps s2)) i)"
        using g len False by (simp add: add3_assoc)
      moreover have "image_count a' = image_count a + length (filter (\<lambda>cs. cs \<noteq> []) (cs # extractions E k d ps s2))"
        using c False by simp
      moreover have "\<forall>p\<in>set (cs # extractions E k d ps s2). \<forall>c\<in>set p. hex_color c"
        using h hx by simp
      ultimately show ?thesis unfolding e l using r by blast
    qed
  qed
qed

lemma channel_sums_le:
  assumes "\<forall>p\<in>set ps. i < length p \<and> (\<forall>c\<in>set p. hex_color c)"
  shows "fst (channel_sums ps i) \<le> 255 * length ps \<and>
         fst (snd (channel_sums ps i)) \<le> 255 * length ps \<and>
         snd (snd (channel_sums ps i)) \<le> 255 * length ps"
  using assms
proof (induction ps)
  case Nil show ?case by simp
next
  case (Cons p ps)
  then have "hex_color (p ! i)" by simp
  from channels_le[OF this] Cons show ?case
    by (cases "channels (p ! i)"; cases "channel_sums ps i") auto
qed

lemma unit_range:
  assumes "v \<le> 255 * n" "0 < n"
  shows "0 \<le> fdiv (fdiv (of_nat v) (of_nat n)) 255 \<and> fdiv (fdiv (of_nat v) (of_nat n)) 255 \<le> 1"
proof -
  let ?x = "(of_nat v :: rat) / of_nat n"
  have x0: "0 \<le> ?x" by simp
  have "(of_nat v :: rat) \<le> of_nat (255 * n)" using assms(1) by (simp only: of_nat_le_iff)
  then have x1: "?x \<le> of_nat 255" using assms(2) by (simp add: divide_le_eq)
  have y0: "0 \<le> fl 53 ?x" using x0 by (rule fl_nonneg)
  have y1: "fl 53 ?x \<le> of_nat 255" by (rule fl_le_nat[OF x0 x1]) simp_all
  have z0: "0 \<le> fl 53 ?x / 255" using y0 by simp
  have z1: "fl 53 ?x / 255 \<le> of_nat 1" using y1 by simp
  have "0 \<le> fl 53 (fl 53 ?x / 255)" using z0 by (rule fl_nonneg)
  moreover have "fl 53 (fl 53 ?x / 255) \<le> of_nat 1" by (rule fl_le_nat[OF z0 z1]) simp_all
  ultimately show ?thesis by (simp add: fdiv_def)
qed

lemma rgb2hex_average:
  assumes "fst v \<le> 255 * n" "fst (snd v) \<le> 255 * n" "snd (snd v) \<le> 255 * n" "0 < n"
  shows "\<exists>h. rgb2hex (average v n) = Inr h"
proof -
  obtain r g b where v: "v = (r, g, b)" by (cases v)
  from assms v unit_range[of r n] unit_range[of g n] unit_range[of b n]
  show ?thesis by (simp add: average_def rgb2hex_def not_less[symmetric])
qed

lemma colors_hex_all:
  "\<forall>c\<in>set cs. \<exists>h. rgb2hex c = Inr h \<Longrightarrow>
   \<exists>hs. colors_hex cs = Inr hs \<and> length hs = length cs \<and> (\<forall>i<length cs. rgb2hex (cs ! i) = Inr (hs ! i))"
proof (induction cs)
  case Nil show ?case by simp
next
  case (Cons c cs)
  then obtain h hs where h: "rgb2hex c = Inr h" and hs: "colors_hex cs = Inr hs" "length hs = length cs"
    "\<forall>i<length cs. rgb2hex (cs ! i) = Inr (hs ! i)" by auto
  have "\<forall>i<length (c # cs). rgb2hex ((c # cs) ! i) = Inr ((h # hs) ! i)"
    using h hs(3) by (auto simp: nth_Cons split: nat.splits)
  then show ?case using h hs(1,2) by auto
qed

lemma aggregate_average:
  assumes "cache_ok s"
    "ps = filter (\<lambda>cs. cs \<noteq> []) (extractions E k d (walk_files (walk E directory)) s)"
    "ps \<noteq> []" "\<forall>p\<in>set ps. length p = nat k"
  shows "\<exists>hs. fst (analyze_directory E directory k d True s) = Inr (Palette hs) \<and>
              length hs = nat k \<and>
              (\<forall>i<nat k. rgb2hex (average (channel_sums ps i) (length ps)) = Inr (hs ! i))"
proof -
  let ?a0 = "\<lparr>results = [], aggregate_colors = (\<lambda>i. (0, 0, 0)), image_count = 0\<rparr>"
  from pairs_loop_True[OF assms(1), of E k d "walk_files (walk E directory)" "nat k" ?a0] assms(2,4)
  obtain a' s' where r: "pairs_loop E k d True (walk_files (walk E directory)) ?a0 s = (Inr a', s')"
    and c: "image_count a' = length ps"
    and g: "\<forall>i<nat k. aggregate_colors a' i = add3 (0, 0, 0) (channel_sums ps i)"
    and h: "\<forall>p\<in>set (extractions E k d (walk_files (walk E directory)) s). \<forall>c\<in>set p. hex_color c"
    by auto
  have g': "\<forall>i<nat k. aggregate_colors a' i = channel_sums ps i"
    using g by (simp add: add3_zero_left)
  have n: "0 < length ps" using assms(3) by simp
  let ?cs = "map (\<lambda>i. average (aggregate_colors a' i) (image_count a')) [0..<nat k]"
  have cs: "?cs = map (\<lambda>i. average (channel_sums ps i) (length ps)) [0..<nat k]"
    using g' c by simp
  have "\<forall>i<nat k. \<exists>hx. rgb2hex (average (channel_sums ps i) (length ps)) = Inr hx"
  proof (intro allI impI)
    fix i assume i: "i < nat k"
    have "\<forall>p\<in>set ps. i < length p \<and> (\<forall>c\<in>set p. hex_color c)"
      using assms(2,4) h i by auto
    from channel_sums_le[OF this] n show "\<exists>hx. rgb2hex (average (channel_sums ps i) (length ps)) = Inr hx"
      by (intro rgb2hex_average) simp_all
  qed
  then have "\<forall>c\<in>set ?cs. \<exists>hx. rgb2hex c = Inr hx" unfolding cs by auto
  from colors_hex_all[OF this] obtain hs where hs: "colors_hex ?cs = Inr hs" "length hs = nat k"
    "\<forall>i<nat k. rgb2hex (?cs ! i) = Inr (hs ! i)" by auto
  have "fst (analyze_directory E directory k d True s) = Inr (Palette hs)"
    using r c n hs(1) by (simp add: analyze_directory_def walk_loop_pairs)
  moreover have "\<forall>i<nat k. rgb2hex (average (channel_sums ps i) (length ps)) = Inr (hs ! i)"
    using hs(3) unfolding cs by simp
  ultimately show ?thesis using hs(2) by blast
qed

subsection \<open>The red and the blue image\<close>

lemma demo_pair_1:
  "extractions demo_env 1 False [(''pair'', ''red.png''), (''pair'', ''blue.png'')] s0 =
     [[''#ff0000''], [''#0000ff'']]"
proof -
  obtain sA where A: "visit_file demo_env 1 False ''pair'' ''red.png'' s0 = (Inr [''#ff0000''], sA)"
    and cA: "color_cache sA = (color_cache s0)(''pair/red.png'' \<mapsto> [''#ff0000''])"
    using visit_miss[of demo_env "''pair''" "''red.png''" s0 "[red_px]" 1 "[(1, 0, 0)]" "[''#ff0000'']"]
    by (auto simp: demo_facts demo_join s0_def)
  obtain sB where B: "visit_file demo_env 1 False ''pair'' ''blue.png'' sA = (Inr [''#0000ff''], sB)"
    using visit_miss[of demo_env "''pair''" "''blue.png''" sA "[blue_px]" 1 "[(0, 0, 1)]" "[''#0000ff'']"]
    by (auto simp: demo_facts demo_join s0_def cA)
  show ?thesis by (simp add: demo_supported A B)
qed

lemma cache_ok_s0: "cache_ok s0"
  by (simp add: cache_ok_def s0_def)

lemma demo_channels:
  "channels ''#ff0000'' = (255, 0, 0)" "channels ''#0000ff'' = (0, 0, 255)"
  by code_simp+

lemma demo_average: "average (255, 0, 255) 2 = (1 / 2, 0, 1 / 2)"
  by code_simp

lemma demo_average_Suc: "average (255, 0, 255) (Suc (Suc 0)) = (1 / 2, 0, 1 / 2)"
  using demo_average by (simp add: numeral_2_eq_2)

lemma singleton_list: "length hs = 1 \<Longrightarrow> hs ! 0 = h \<Longrightarrow> hs = [h]"
  by (cases hs) auto

lemma demo_pair_result:
  "fst (analyze_directory demo_env ''pair'' 1 False True s0) = Inr (Palette [''#800080''])"
proof -
  from aggregate_average[OF cache_ok_s0, of "[[''#ff0000''], [''#0000ff'']]" demo_env 1 False "''pair''"]
  obtain hs where hs: "fst (analyze_directory demo_env ''pair'' 1 False True s0) = Inr (Palette hs)"
    "length hs = 1" "hs ! 0 = ''#800080''"
    by (auto simp: demo_walk_files demo_pair_1 demo_channels demo_average_Suc hex_purple simp del: extractions.simps)
  from singleton_list[OF hs(2,3)] hs(1) show ?thesis by simp
qed

section \<open>The claim about the aggregated palette\<close>

text \<open>
  Claim C2, as the code has it. With \<open>aggregate\<close> set, on a cache that holds only
  colours, when at least one extraction of the walk succeeds and every successful one
  gives exactly \<open>k\<close> colours, \<open>analyze_directory\<close> returns a palette of \<open>k\<close> entries, and
  entry \<open>i\<close> is \<open>rgb2hex\<close> of the average of the colours at index \<open>i\<close>: the sum of
  their channels, divided by the number of successful images and by 255. For the palettes
  \<open>#ff0000\<close> and \<open>#0000ff\<close> with \<open>k = 1\<close> this is \<open>#800080\<close>: the average
  channel 127.5 is rounded to the even 128 by \<open>rgb2hex\<close>.
\<close>

theorem aggregated_palette_is_average:
  assumes "cache_ok s"
    "ps = filter (\<lambda>cs. cs \<noteq> []) (extractions E k d (walk_files (walk E directory)) s)"
    "ps \<noteq> []" "\<forall>p\<in>set ps. length p = nat k"
  shows "\<exists>hs. fst (analyze_directory E directory k d True s) = Inr (Palette hs) \<and>
              length hs = nat k \<and>
              (\<forall>i<nat k. rgb2hex (average (channel_sums ps i) (length ps)) = Inr (hs ! i))"
  using assms by (rule aggregate_average)

theorem aggregated_palette_is_average_witness:
  "cache_ok s0 \<and>
   filter (\<lambda>cs. cs \<noteq> []) (extractions demo_env 1 False (walk_files (walk demo_env ''pair'')) s0) =
     [[''#ff0000''], [''#0000ff'']] \<and>
   channel_sums [[''#ff0000''], [''#0000ff'']] 0 = (255, 0, 255) \<and>
   average (255, 0, 255) 2 = (1 / 2, 0, 1 / 2) \<and>
   rgb2hex (1 / 2, 0, 1 / 2) = Inr ''#800080'' \<and>
   fst (analyze_directory demo_env ''pair'' 1 False True s0) = Inr (Palette [''#800080''])"
proof -
  from aggregated_palette_is_average[OF cache_ok_s0, of "[[''#ff0000''], [''#0000ff'']]" demo_env 1 False "''pair''"]
  obtain hs where hs: "fst (analyze_directory demo_env ''pair'' 1 False True s0) = Inr (Palette hs)"
    "length hs = 1" "hs ! 0 = ''#800080''"
    by (auto simp: demo_walk_files demo_pair_1 demo_channels demo_average_Suc hex_purple simp del: extractions.simps)
  from singleton_list[OF hs(2,3)] hs(1) show ?thesis
    by (simp add: cache_ok_s0 demo_walk_files demo_pair_1 demo_channels demo_average hex_purple
          del: extractions.simps)
qed

text \<open>
  The run on the red and the blue image: the aggregated palette is \<open>#800080\<close>, not the
  \<open>#7f007f\<close> of truncated channel averages.
\<close>

theorem aggregated_red_blue_counterexample:
  "extractions demo_env 1 False (walk_files (walk demo_env ''pair'')) s0 = [[''#ff0000''], [''#0000ff'']] \<and>
   fst (analyze_directory demo_env ''pair'' 1 False True s0) = Inr (Palette [''#800080'']) \<and>
   fst (analyze_directory demo_env ''pair'' 1 False True s0) \<noteq> Inr (Palette [''#7f007f''])"
  by (simp add: demo_pair_result demo_walk_files demo_pair_1 del: extractions.simps)

end
